theory Spec2Isabelle
  imports Complex_Main
begin

section \<open>Time calculator: time parsing, duration rounding and billing\<close>

text \<open>
  A shallow embedding of \<^verbatim>\<open>improved.py\<close>. Python strings are character lists; a
  character stands for the code point of the same number, so these strings cover the
  code points 0 to 255. The time parser is modelled a second time on lists of code
  points, which cover every Python string, and the two models are proved to agree on
  the code points 0 to 255. Python's \<^verbatim>\<open>None\<close> result is \<open>None\<close>, a returned value
  \<open>Some\<close>. Logging and printing do not change any result and are left out.
\<close>

subsection \<open>Decimal digits and number formatting\<close>

definition is_dec :: "char \<Rightarrow> bool" where
  \<comment> \<open>the regular expression class \<^verbatim>\<open>\d\<close>, which below code point 256 is \<^verbatim>\<open>[0-9]\<close>\<close>
  "is_dec c \<longleftrightarrow> c \<in> set ''0123456789''"

definition digit_val :: "char \<Rightarrow> nat" where
  "digit_val c = of_char c - 48"

definition digit_char :: "nat \<Rightarrow> char" where
  \<comment> \<open>the digit of a value below ten, the only values it is applied to\<close>
  "digit_char d = ''0123456789'' ! d"

fun str_nat :: "nat \<Rightarrow> string" where
  "str_nat n = (if n < 10 then [digit_char n] else str_nat (n div 10) @ [digit_char (n mod 10)])"

declare str_nat.simps [simp del]

definition str_int :: "int \<Rightarrow> string" where
  \<comment> \<open>Python's \<^verbatim>\<open>str\<close> of an \<^verbatim>\<open>int\<close>\<close>
  "str_int i = (if i < 0 then CHR ''-'' # str_nat (nat (- i)) else str_nat (nat i))"

definition zero_pad2 :: "nat \<Rightarrow> string" where
  \<comment> \<open>a two-digit field of \<^verbatim>\<open>strftime\<close>, as \<^verbatim>\<open>%H\<close> and \<^verbatim>\<open>%M\<close> are\<close>
  "zero_pad2 n = (if n < 10 then CHR ''0'' # str_nat n else str_nat n)"

definition int_of_digits :: "string \<Rightarrow> nat" where
  \<comment> \<open>Python's \<^verbatim>\<open>int\<close> on a string of decimal digits\<close>
  "int_of_digits s = foldl (\<lambda>acc c. 10 * acc + digit_val c) 0 s"

subsection \<open>Date-times\<close>

text \<open>
  A \<^verbatim>\<open>datetime\<close> is its day number (\<^verbatim>\<open>toordinal()\<close>), hour and minute. Every
  date-time of the program comes from \<^verbatim>\<open>strptime\<close> with the format \<^verbatim>\<open>%H:%M\<close>,
  possibly moved by whole days, so seconds and microseconds are always zero and are
  not represented.
\<close>

record datetime =
  dt_day :: int
  dt_hour :: nat
  dt_minute :: nat

definition datetime_secs :: "datetime \<Rightarrow> int" where
  "datetime_secs t = 86400 * dt_day t + 3600 * int (dt_hour t) + 60 * int (dt_minute t)"

definition datetime_sub :: "datetime \<Rightarrow> datetime \<Rightarrow> int" where
  \<comment> \<open>\<^verbatim>\<open>(a - b).total_seconds()\<close>\<close>
  "datetime_sub a b = datetime_secs a - datetime_secs b"

definition datetime_less :: "datetime \<Rightarrow> datetime \<Rightarrow> bool" where
  \<comment> \<open>\<^verbatim>\<open>a < b\<close>\<close>
  "datetime_less a b \<longleftrightarrow> datetime_secs a < datetime_secs b"

definition add_days :: "datetime \<Rightarrow> int \<Rightarrow> datetime" where
  \<comment> \<open>\<^verbatim>\<open>t + timedelta(days=n)\<close>\<close>
  "add_days t n = t\<lparr>dt_day := dt_day t + n\<rparr>"

definition strftime_HM :: "datetime \<Rightarrow> string" where
  \<comment> \<open>\<^verbatim>\<open>t.strftime("%H:%M")\<close>\<close>
  "strftime_HM t = zero_pad2 (dt_hour t) @ CHR '':'' # zero_pad2 (dt_minute t)"

definition valid_datetime :: "datetime \<Rightarrow> bool" where
  \<comment> \<open>the range of Python's \<^verbatim>\<open>datetime\<close>: years 1 to 9999\<close>
  "valid_datetime t \<longleftrightarrow> 1 \<le> dt_day t \<and> dt_day t \<le> 3652059 \<and> dt_hour t < 24 \<and> dt_minute t < 60"

subsection \<open>Python numbers\<close>

text \<open>
  \<^verbatim>\<open>decimal_hours\<close> is an \<^verbatim>\<open>int\<close> on the hour and a \<^verbatim>\<open>float\<close> on the half hour.
  The floats of the program are whole numbers and halves far below \<open>2 ^ 53\<close>, which
  binary floating point represents exactly, so a float is modelled by the rational it
  denotes.
\<close>

datatype pynum = PInt int | PFloat rat

fun num_value :: "pynum \<Rightarrow> rat" where
  "num_value (PInt i) = of_int i"
| "num_value (PFloat x) = x"

definition py_floordiv :: "rat \<Rightarrow> rat \<Rightarrow> rat" where
  \<comment> \<open>\<^verbatim>\<open>a // b\<close> on floats, for \<open>b > 0\<close>\<close>
  "py_floordiv a b = of_int \<lfloor>a / b\<rfloor>"

definition py_mod :: "rat \<Rightarrow> rat \<Rightarrow> rat" where
  \<comment> \<open>\<^verbatim>\<open>a % b\<close> on floats, for \<open>b > 0\<close>\<close>
  "py_mod a b = a - b * of_int \<lfloor>a / b\<rfloor>"

definition py_int :: "rat \<Rightarrow> int" where
  \<comment> \<open>\<^verbatim>\<open>int(x)\<close> on a float: truncation towards zero\<close>
  "py_int x = (if x < 0 then - \<lfloor>- x\<rfloor> else \<lfloor>x\<rfloor>)"

definition round_half_even :: "rat \<Rightarrow> int" where
  "round_half_even y =
     (let f = \<lfloor>y\<rfloor>; d = y - of_int f
      in if d < 1 / 2 then f else if 1 / 2 < d then f + 1 else if even f then f else f + 1)"

fun py_round1 :: "pynum \<Rightarrow> pynum" where
  \<comment> \<open>\<^verbatim>\<open>round(x, 1)\<close>: an \<^verbatim>\<open>int\<close> is returned as it is, a float is rounded to one decimal\<close>
  "py_round1 (PInt i) = PInt i"
| "py_round1 (PFloat x) = PFloat (of_int (round_half_even (x * 10)) / 10)"

declare py_round1.simps [simp del]

definition format_2f :: "int \<Rightarrow> string" where
  \<comment> \<open>\<^verbatim>\<open>f"{n:.2f}"\<close> for an \<^verbatim>\<open>int\<close> \<open>n\<close>: the conversion to float is exact below \<open>2 ^ 53\<close>\<close>
  "format_2f n = str_int n @ ''.00''"

subsection \<open>The duration and billing calculator\<close>

record session =
  start_time :: string
  end_time :: string
  original_hours :: int
  original_minutes :: int
  rounded_hours :: int
  rounded_minutes :: int
  decimal_hours :: pynum
  cost :: int
  formatted_cost :: string

definition calculate_duration :: "datetime \<Rightarrow> datetime \<Rightarrow> session option" where
  "calculate_duration start_t end_t =
     (let duration = datetime_sub end_t start_t
      in if duration < 0 then None
         else
           let total_minutes = (of_int duration :: rat) / 60;
               hours = py_floordiv total_minutes 60;
               minutes = py_mod total_minutes 60;
               (r_hours, r_minutes) =
                 (if minutes \<le> 19 then (py_int hours, 0 :: int)
                  else if 20 \<le> minutes \<and> minutes \<le> 49 then (py_int hours, 30)
                  else (py_int hours + 1, 0));
               dec_hours = (if r_minutes = 30 then PFloat (of_int r_hours + 1 / 2) else PInt (r_hours + 0));
               cost_v = r_hours * 220 + r_minutes div 30 * 110
           in Some \<lparr>start_time = strftime_HM start_t,
                    end_time = strftime_HM end_t,
                    original_hours = py_int hours,
                    original_minutes = py_int minutes,
                    rounded_hours = r_hours,
                    rounded_minutes = r_minutes,
                    decimal_hours = py_round1 dec_hours,
                    cost = cost_v,
                    formatted_cost = CHR ''$'' # format_2f cost_v\<rparr>)"

subsection \<open>The time parser\<close>

definition sub_separators :: "string \<Rightarrow> string" where
  \<comment> \<open>\<^verbatim>\<open>re.sub(r'[\.;]', ':', s)\<close>\<close>
  "sub_separators s = map (\<lambda>c. if c = CHR ''.'' \<or> c = CHR '';'' then CHR '':'' else c) s"

definition sub_commas :: "string \<Rightarrow> string" where
  \<comment> \<open>\<^verbatim>\<open>re.sub(r'[,]', '.', s)\<close>\<close>
  "sub_commas s = map (\<lambda>c. if c = CHR '','' then CHR ''.'' else c) s"

definition is_space :: "char \<Rightarrow> bool" where
  \<comment> \<open>the characters \<^verbatim>\<open>str.strip()\<close> removes: code points 9 to 13, 28 to 32, 133 and 160\<close>
  "is_space c \<longleftrightarrow>
     (let n = (of_char c :: nat) in (9 \<le> n \<and> n \<le> 13) \<or> (28 \<le> n \<and> n \<le> 32) \<or> n = 133 \<or> n = 160)"

definition strip :: "string \<Rightarrow> string" where
  "strip s = rev (dropWhile is_space (rev (dropWhile is_space s)))"

definition char_isdigit :: "char \<Rightarrow> bool" where
  \<comment> \<open>\<^verbatim>\<open>str.isdigit()\<close> on one character: \<^verbatim>\<open>0\<close> to \<^verbatim>\<open>9\<close> and the superscripts
    two, three and one (code points 178, 179 and 185)\<close>
  "char_isdigit c \<longleftrightarrow>
     is_dec c \<or> (let n = (of_char c :: nat) in n = 178 \<or> n = 179 \<or> n = 185)"

definition isdigit :: "string \<Rightarrow> bool" where
  "isdigit s \<longleftrightarrow> s \<noteq> [] \<and> list_all char_isdigit s"

definition insert_colon :: "string \<Rightarrow> string" where
  \<comment> \<open>the conversion of an input like \<^verbatim>\<open>2000\<close> to \<^verbatim>\<open>20:00\<close>\<close>
  "insert_colon s =
     (if length s = 4 \<and> isdigit s then take 2 s @ CHR '':'' # drop 2 s else s)"

definition normalize :: "string \<Rightarrow> string" where
  \<comment> \<open>the string \<^verbatim>\<open>parse_time_input\<close> hands to \<^verbatim>\<open>strptime\<close>\<close>
  "normalize s = insert_colon (strip (sub_commas (sub_separators s)))"

text \<open>
  \<^verbatim>\<open>datetime.strptime(s, "%H:%M")\<close> compiles the format to the regular expression
  \<^verbatim>\<open>(?P<H>2[0-3]|[0-1]\d|\d):(?P<M>[0-5]\d|\d)\<close>, matches it at the start of \<open>s\<close>
  and raises \<^verbatim>\<open>ValueError\<close> when there is no match or when the match ends before
  the end of \<open>s\<close>. The alternatives of a group are tried in the order written, and
  the engine backtracks into the hour group when the colon does not follow.
\<close>

definition hour_alternatives :: "string \<Rightarrow> (string \<times> string) list" where
  \<comment> \<open>the prefixes the group \<^verbatim>\<open>H\<close> can match, in the order tried, each with the rest\<close>
  "hour_alternatives s =
     (case s of c1 # c2 # r \<Rightarrow>
        (if c1 = CHR ''2'' \<and> c2 \<in> set ''0123'' then [([c1, c2], r)] else []) | _ \<Rightarrow> [])
     @ (case s of c1 # c2 # r \<Rightarrow>
        (if c1 \<in> set ''01'' \<and> is_dec c2 then [([c1, c2], r)] else []) | _ \<Rightarrow> [])
     @ (case s of c1 # r \<Rightarrow> (if is_dec c1 then [([c1], r)] else []) | _ \<Rightarrow> [])"

definition minute_alternatives :: "string \<Rightarrow> (string \<times> string) list" where
  \<comment> \<open>the same for the group \<^verbatim>\<open>M\<close>\<close>
  "minute_alternatives s =
     (case s of c1 # c2 # r \<Rightarrow>
        (if c1 \<in> set ''012345'' \<and> is_dec c2 then [([c1, c2], r)] else []) | _ \<Rightarrow> [])
     @ (case s of c1 # r \<Rightarrow> (if is_dec c1 then [([c1], r)] else []) | _ \<Rightarrow> [])"

definition regex_match_HM :: "string \<Rightarrow> (string \<times> string \<times> string) option" where
  \<comment> \<open>the first match in backtracking order: the two groups and the unmatched rest\<close>
  "regex_match_HM s =
     (case concat (map (\<lambda>(h, r).
             case r of c # r1 \<Rightarrow>
               (if c = CHR '':'' then map (\<lambda>(m, r2). (h, m, r2)) (minute_alternatives r1) else [])
             | [] \<Rightarrow> [])
           (hour_alternatives s)) of
        [] \<Rightarrow> None
      | x # _ \<Rightarrow> Some x)"

definition strptime_HM :: "string \<Rightarrow> datetime option" where
  \<comment> \<open>\<open>None\<close> is \<^verbatim>\<open>ValueError\<close>; the date of the result is 1900-01-01, day 693596\<close>
  "strptime_HM s =
     (case regex_match_HM s of
        None \<Rightarrow> None
      | Some (h, m, rest) \<Rightarrow>
          if rest \<noteq> [] then None
          else Some \<lparr>dt_day = 693596, dt_hour = int_of_digits h, dt_minute = int_of_digits m\<rparr>)"

definition parse_time_input :: "string \<Rightarrow> datetime option" where
  \<comment> \<open>the \<^verbatim>\<open>ValueError\<close> of \<^verbatim>\<open>strptime\<close> is caught and \<^verbatim>\<open>None\<close> returned\<close>
  "parse_time_input time_input = strptime_HM (normalize time_input)"

text \<open>
  The parser without its comma rule: \<^verbatim>\<open>parse_time_input\<close> with the line
  \<^verbatim>\<open>time_input = re.sub(r'[,]', '.', time_input)\<close> taken out, for comparison.
\<close>

definition parse_time_input_no_comma :: "string \<Rightarrow> datetime option" where
  "parse_time_input_no_comma time_input =
     strptime_HM (insert_colon (strip (sub_separators time_input)))"

text \<open>
  The pattern in the words of the specification: an hour and a minute of one or two
  decimal digits each, the hour at most 23 and the minute at most 59, with a colon
  between them.
\<close>

definition spec_component :: "nat \<Rightarrow> string \<Rightarrow> bool" where
  "spec_component hi s \<longleftrightarrow>
     (length s = 1 \<or> length s = 2) \<and> list_all is_dec s \<and> int_of_digits s \<le> hi"

definition spec_hour_minute :: "string \<Rightarrow> bool" where
  "spec_hour_minute s \<longleftrightarrow>
     (let hs = takeWhile (\<lambda>c. c \<noteq> CHR '':'') s; ms = drop (length hs + 1) s
      in length hs < length s \<and> spec_component 23 hs \<and> spec_component 59 ms)"

subsection \<open>The time parser on Unicode strings\<close>

text \<open>
  A Python string is a sequence of code points from 0 to 1114111, and the regular
  expression class \<^verbatim>\<open>\d\<close>, \<^verbatim>\<open>int\<close>, \<^verbatim>\<open>str.isdigit\<close> and \<^verbatim>\<open>str.strip\<close> look at
  characters above code point 255 too. Here the parser is modelled a second time on lists
  of code points, with the character tables of Unicode 14.0, the version of Python 3.11.
  Each table is a list of runs of code points, first and last.
\<close>

type_synonym ustring = "nat list"

definition in_ranges :: "(nat \<times> nat) list \<Rightarrow> nat \<Rightarrow> bool" where
  "in_ranges rs c \<longleftrightarrow> list_ex (\<lambda>(lo, hi). lo \<le> c \<and> c \<le> hi) rs"

definition decimal_ranges :: "(nat \<times> nat) list" where
  \<comment> \<open>the characters with a decimal digit value, which \<^verbatim>\<open>\d\<close> matches and \<^verbatim>\<open>int\<close> converts;
    every run starts at a digit zero and counts upwards\<close>
  "decimal_ranges =
     [(48, 57), (1632, 1641), (1776, 1785), (1984, 1993), (2406, 2415), (2534, 2543),
      (2662, 2671), (2790, 2799), (2918, 2927), (3046, 3055), (3174, 3183), (3302, 3311),
      (3430, 3439), (3558, 3567), (3664, 3673), (3792, 3801), (3872, 3881), (4160, 4169),
      (4240, 4249), (6112, 6121), (6160, 6169), (6470, 6479), (6608, 6617), (6784, 6793),
      (6800, 6809), (6992, 7001), (7088, 7097), (7232, 7241), (7248, 7257), (42528, 42537),
      (43216, 43225), (43264, 43273), (43472, 43481), (43504, 43513), (43600, 43609),
      (44016, 44025), (65296, 65305), (66720, 66729), (68912, 68921), (69734, 69743),
      (69872, 69881), (69942, 69951), (70096, 70105), (70384, 70393), (70736, 70745),
      (70864, 70873), (71248, 71257), (71360, 71369), (71472, 71481), (71904, 71913),
      (72016, 72025), (72784, 72793), (73040, 73049), (73120, 73129), (92768, 92777),
      (92864, 92873), (93008, 93017), (120782, 120831), (123200, 123209), (123632, 123641),
      (125264, 125273), (130032, 130041)]"

definition space_ranges :: "(nat \<times> nat) list" where
  \<comment> \<open>the characters \<^verbatim>\<open>str.strip()\<close> removes\<close>
  "space_ranges =
     [(9, 13), (28, 32), (133, 133), (160, 160), (5760, 5760), (8192, 8202), (8232, 8233),
      (8239, 8239), (8287, 8287), (12288, 12288)]"

definition isdigit_ranges :: "(nat \<times> nat) list" where
  \<comment> \<open>the characters for which \<^verbatim>\<open>str.isdigit()\<close> holds\<close>
  "isdigit_ranges =
     [(48, 57), (178, 179), (185, 185), (1632, 1641), (1776, 1785), (1984, 1993),
      (2406, 2415), (2534, 2543), (2662, 2671), (2790, 2799), (2918, 2927), (3046, 3055),
      (3174, 3183), (3302, 3311), (3430, 3439), (3558, 3567), (3664, 3673), (3792, 3801),
      (3872, 3881), (4160, 4169), (4240, 4249), (4969, 4977), (6112, 6121), (6160, 6169),
      (6470, 6479), (6608, 6618), (6784, 6793), (6800, 6809), (6992, 7001), (7088, 7097),
      (7232, 7241), (7248, 7257), (8304, 8304), (8308, 8313), (8320, 8329), (9312, 9320),
      (9332, 9340), (9352, 9360), (9450, 9450), (9461, 9469), (9471, 9471), (10102, 10110),
      (10112, 10120), (10122, 10130), (42528, 42537), (43216, 43225), (43264, 43273),
      (43472, 43481), (43504, 43513), (43600, 43609), (44016, 44025), (65296, 65305),
      (66720, 66729), (68160, 68163), (68912, 68921), (69216, 69224), (69714, 69722),
      (69734, 69743), (69872, 69881), (69942, 69951), (70096, 70105), (70384, 70393),
      (70736, 70745), (70864, 70873), (71248, 71257), (71360, 71369), (71472, 71481),
      (71904, 71913), (72016, 72025), (72784, 72793), (73040, 73049), (73120, 73129),
      (92768, 92777), (92864, 92873), (93008, 93017), (120782, 120831), (123200, 123209),
      (123632, 123641), (125264, 125273), (127232, 127242), (130032, 130041)]"

definition u_is_dec :: "nat \<Rightarrow> bool" where
  "u_is_dec c \<longleftrightarrow> in_ranges decimal_ranges c"

definition u_digit_val :: "nat \<Rightarrow> nat" where
  "u_digit_val c =
     (case find (\<lambda>(lo, hi). lo \<le> c \<and> c \<le> hi) decimal_ranges of
        Some (lo, hi) \<Rightarrow> (c - lo) mod 10
      | None \<Rightarrow> 0)"

definition u_int_of_digits :: "ustring \<Rightarrow> nat" where
  "u_int_of_digits s = foldl (\<lambda>acc c. 10 * acc + u_digit_val c) 0 s"

definition u_sub_separators :: "ustring \<Rightarrow> ustring" where
  \<comment> \<open>code points 46, 59 and 58 are the full stop, the semicolon and the colon\<close>
  "u_sub_separators s = map (\<lambda>c. if c = 46 \<or> c = 59 then 58 else c) s"

definition u_sub_commas :: "ustring \<Rightarrow> ustring" where
  \<comment> \<open>code point 44 is the comma\<close>
  "u_sub_commas s = map (\<lambda>c. if c = 44 then 46 else c) s"

definition u_strip :: "ustring \<Rightarrow> ustring" where
  "u_strip s = rev (dropWhile (in_ranges space_ranges) (rev (dropWhile (in_ranges space_ranges) s)))"

definition u_isdigit :: "ustring \<Rightarrow> bool" where
  "u_isdigit s \<longleftrightarrow> s \<noteq> [] \<and> list_all (in_ranges isdigit_ranges) s"

definition u_insert_colon :: "ustring \<Rightarrow> ustring" where
  "u_insert_colon s = (if length s = 4 \<and> u_isdigit s then take 2 s @ 58 # drop 2 s else s)"

definition u_normalize :: "ustring \<Rightarrow> ustring" where
  "u_normalize s = u_insert_colon (u_strip (u_sub_commas (u_sub_separators s)))"

text \<open>
  In the regular expression of \<^verbatim>\<open>%H:%M\<close> the classes \<^verbatim>\<open>[0-3]\<close>, \<^verbatim>\<open>[0-1]\<close> and
  \<^verbatim>\<open>[0-5]\<close>, the literal \<^verbatim>\<open>2\<close> and the colon match the ASCII characters only (code
  points 48 to 53 and 58), while \<^verbatim>\<open>\d\<close> matches every decimal digit.
\<close>

definition u_hour_alternatives :: "ustring \<Rightarrow> (ustring \<times> ustring) list" where
  "u_hour_alternatives s =
     (case s of c1 # c2 # r \<Rightarrow>
        (if c1 = 50 \<and> 48 \<le> c2 \<and> c2 \<le> 51 then [([c1, c2], r)] else []) | _ \<Rightarrow> [])
     @ (case s of c1 # c2 # r \<Rightarrow>
        (if (c1 = 48 \<or> c1 = 49) \<and> u_is_dec c2 then [([c1, c2], r)] else []) | _ \<Rightarrow> [])
     @ (case s of c1 # r \<Rightarrow> (if u_is_dec c1 then [([c1], r)] else []) | _ \<Rightarrow> [])"

definition u_minute_alternatives :: "ustring \<Rightarrow> (ustring \<times> ustring) list" where
  "u_minute_alternatives s =
     (case s of c1 # c2 # r \<Rightarrow>
        (if 48 \<le> c1 \<and> c1 \<le> 53 \<and> u_is_dec c2 then [([c1, c2], r)] else []) | _ \<Rightarrow> [])
     @ (case s of c1 # r \<Rightarrow> (if u_is_dec c1 then [([c1], r)] else []) | _ \<Rightarrow> [])"

definition u_regex_match_HM :: "ustring \<Rightarrow> (ustring \<times> ustring \<times> ustring) option" where
  "u_regex_match_HM s =
     (case concat (map (\<lambda>(h, r).
             case r of c # r1 \<Rightarrow>
               (if c = 58 then map (\<lambda>(m, r2). (h, m, r2)) (u_minute_alternatives r1) else [])
             | [] \<Rightarrow> [])
           (u_hour_alternatives s)) of
        [] \<Rightarrow> None
      | x # _ \<Rightarrow> Some x)"

definition u_strptime_HM :: "ustring \<Rightarrow> datetime option" where
  "u_strptime_HM s =
     (case u_regex_match_HM s of
        None \<Rightarrow> None
      | Some (h, m, rest) \<Rightarrow>
          if rest \<noteq> [] then None
          else Some \<lparr>dt_day = 693596, dt_hour = u_int_of_digits h, dt_minute = u_int_of_digits m\<rparr>)"

definition u_parse_time_input :: "ustring \<Rightarrow> datetime option" where
  "u_parse_time_input time_input = u_strptime_HM (u_normalize time_input)"

text \<open>
  The pattern of the specification on Unicode strings, for a given reading of ``digit'':
  the ASCII digits, or every decimal digit.
\<close>

definition ascii_digit :: "nat \<Rightarrow> bool" where
  "ascii_digit c \<longleftrightarrow> 48 \<le> c \<and> c \<le> 57"

definition u_spec_component :: "(nat \<Rightarrow> bool) \<Rightarrow> nat \<Rightarrow> ustring \<Rightarrow> bool" where
  "u_spec_component dig hi s \<longleftrightarrow>
     (length s = 1 \<or> length s = 2) \<and> list_all dig s \<and> u_int_of_digits s \<le> hi"

definition u_spec_hour_minute :: "(nat \<Rightarrow> bool) \<Rightarrow> ustring \<Rightarrow> bool" where
  "u_spec_hour_minute dig s \<longleftrightarrow>
     (let hs = takeWhile (\<lambda>c. c \<noteq> 58) s; ms = drop (length hs + 1) s
      in length hs < length s \<and> u_spec_component dig 23 hs \<and> u_spec_component dig 59 ms)"

definition code_points :: "string \<Rightarrow> ustring" where
  \<comment> \<open>a string of characters below code point 256 as a Unicode string\<close>
  "code_points s = map of_char s"

subsection \<open>Entering a session\<close>

text \<open>
  What \<^verbatim>\<open>get_multiple_session_details\<close> and the edit branch of
  \<^verbatim>\<open>manage_sessions\<close> do with a pair of inputs: both are parsed, an end before the
  start is moved to the next day, and the calculator is called. \<open>None\<close> means that no
  session is appended or replaced.
\<close>

definition session_of_times :: "datetime \<Rightarrow> datetime \<Rightarrow> session option" where
  "session_of_times start_t end_t =
     calculate_duration start_t
       (if datetime_less end_t start_t then add_days end_t 1 else end_t)"

definition session_of_inputs :: "string \<Rightarrow> string \<Rightarrow> session option" where
  "session_of_inputs start_input end_input =
     (case (parse_time_input start_input, parse_time_input end_input) of
        (Some start_t, Some end_t) \<Rightarrow> session_of_times start_t end_t
      | _ \<Rightarrow> None)"

subsection \<open>Removing sessions\<close>

text \<open>
  The remove branch of \<^verbatim>\<open>manage_sessions\<close>. The input line is split at the commas and
  every part converted by \<^verbatim>\<open>int\<close>; a part that is no number raises \<^verbatim>\<open>ValueError\<close>
  before anything is deleted. The model starts from the list of the numbers entered:
  one is subtracted from each, the indices are sorted in descending order, and the loop
  deletes each index that is in range of the list as it then is.
\<close>

definition del_at :: "nat \<Rightarrow> 'a list \<Rightarrow> 'a list" where
  \<comment> \<open>\<^verbatim>\<open>del sessions[index]\<close> for an index in range\<close>
  "del_at i xs = take i xs @ drop (Suc i) xs"

fun remove_loop :: "int list \<Rightarrow> 'a list \<Rightarrow> 'a list" where
  "remove_loop [] sessions = sessions"
| "remove_loop (index # rest) sessions =
     remove_loop rest
       (if 0 \<le> index \<and> index < int (length sessions) then del_at (nat index) sessions
        else sessions)"

definition remove_sessions :: "int list \<Rightarrow> 'a list \<Rightarrow> 'a list" where
  "remove_sessions numbers sessions =
     (let to_remove = map (\<lambda>x. x - 1) numbers
      in remove_loop (rev (sort to_remove)) sessions)"

section \<open>Properties\<close>

subsection \<open>Arithmetic of the calculator\<close>

lemma py_floordiv_60: "py_floordiv (of_int d) 60 = of_int (d div 60)"
  unfolding py_floordiv_def
  using floor_divide_of_int_eq[of d 60, where ?'a = rat] by simp

lemma py_mod_60: "py_mod (of_int d) 60 = of_int (d mod 60)"
proof -
  have "\<lfloor>(of_int d :: rat) / 60\<rfloor> = d div 60"
    using floor_divide_of_int_eq[of d 60, where ?'a = rat] by simp
  then have "py_mod (of_int d) 60 = (of_int d :: rat) - 60 * of_int (d div 60)"
    by (simp add: py_mod_def)
  also have "\<dots> = of_int (d - 60 * (d div 60))" by simp
  also have "d - 60 * (d div 60) = d mod 60" by (simp add: minus_mult_div_eq_mod)
  finally show ?thesis .
qed

lemma py_int_of_int: "py_int (of_int i) = i"
  by (simp add: py_int_def)

lemma py_round1_int: "py_round1 (PInt i) = PInt i"
  by (simp add: py_round1.simps)

lemma py_round1_half: "py_round1 (PFloat (of_int k + 1 / 2)) = PFloat (of_int k + 1 / 2)"
proof -
  have "(of_int k + 1 / 2) * 10 = (of_int (10 * k + 5) :: rat)" by simp
  then have "round_half_even ((of_int k + 1 / 2) * 10) = 10 * k + 5"
    by (simp only: round_half_even_def Let_def floor_of_int) simp
  then show ?thesis by (simp add: py_round1.simps)
qed

text \<open>The record the calculator returns for a duration of \<open>d\<close> whole minutes.\<close>

lemma calculate_duration_minutes:
  assumes sub: "datetime_sub end_t start_t = 60 * d" and nonneg: "0 \<le> d"
  shows "calculate_duration start_t end_t =
     Some \<lparr>start_time = strftime_HM start_t,
           end_time = strftime_HM end_t,
           original_hours = d div 60,
           original_minutes = d mod 60,
           rounded_hours = (if d mod 60 \<le> 49 then d div 60 else d div 60 + 1),
           rounded_minutes = (if 20 \<le> d mod 60 \<and> d mod 60 \<le> 49 then 30 else 0),
           decimal_hours =
             (if 20 \<le> d mod 60 \<and> d mod 60 \<le> 49 then PFloat (of_int (d div 60) + 1 / 2)
              else if d mod 60 \<le> 49 then PInt (d div 60) else PInt (d div 60 + 1)),
           cost =
             (if 20 \<le> d mod 60 \<and> d mod 60 \<le> 49 then d div 60 * 220 + 110
              else if d mod 60 \<le> 49 then d div 60 * 220 else (d div 60 + 1) * 220),
           formatted_cost = CHR ''$'' # format_2f
             (if 20 \<le> d mod 60 \<and> d mod 60 \<le> 49 then d div 60 * 220 + 110
              else if d mod 60 \<le> 49 then d div 60 * 220 else (d div 60 + 1) * 220)\<rparr>"
proof -
  have tm: "(of_int (datetime_sub end_t start_t) :: rat) / 60 = of_int d"
    by (simp add: sub)
  have ge: "\<not> datetime_sub end_t start_t < 0" using sub nonneg by simp
  show ?thesis
    unfolding calculate_duration_def Let_def tm py_floordiv_60 py_mod_60 py_int_of_int
    using ge by (simp add: py_round1_half py_round1_int)
qed

lemma datetime_sub_whole_minutes: "datetime_sub b a = 60 * (datetime_sub b a div 60)"
proof -
  have "datetime_sub b a =
      60 * (1440 * (dt_day b - dt_day a) + 60 * (int (dt_hour b) - int (dt_hour a))
            + (int (dt_minute b) - int (dt_minute a)))"
    by (simp add: datetime_sub_def datetime_secs_def)
  then show ?thesis by (metis nonzero_mult_div_cancel_left zero_neq_numeral)
qed

lemma calculate_duration_None_iff:
  "calculate_duration start_t end_t = None \<longleftrightarrow> datetime_sub end_t start_t < 0"
  by (simp add: calculate_duration_def Let_def split: prod.splits)

subsection \<open>The rounding policy\<close>

text \<open>
  Claim C1. For a non-negative duration of \<open>h\<close> hours and \<open>m\<close> minutes, \<open>m\<close> below 60,
  the calculator returns a record whose original duration is \<open>h\<close> hours \<open>m\<close> minutes
  and whose rounded duration is \<open>h\<close> hours for \<open>m\<close> up to 19, \<open>h\<close> hours 30 minutes for
  \<open>m\<close> from 20 to 49, and \<open>h + 1\<close> hours for \<open>m\<close> from 50.
\<close>

theorem rounding_policy:
  assumes "0 \<le> h" and "0 \<le> m" and "m < 60"
    and "datetime_sub end_t start_t = 60 * (60 * h + m)"
  shows "\<exists>r. calculate_duration start_t end_t = Some r
            \<and> original_hours r = h \<and> original_minutes r = m
            \<and> (m \<le> 19 \<longrightarrow> rounded_hours r = h \<and> rounded_minutes r = 0)
            \<and> (20 \<le> m \<and> m \<le> 49 \<longrightarrow> rounded_hours r = h \<and> rounded_minutes r = 30)
            \<and> (50 \<le> m \<longrightarrow> rounded_hours r = h + 1 \<and> rounded_minutes r = 0)"
proof -
  have "0 \<le> 60 * h + m" using assms by simp
  note c = calculate_duration_minutes[OF assms(4) this]
  have "(60 * h + m) div 60 = h" "(60 * h + m) mod 60 = m" using assms(2,3) by simp_all
  with c show ?thesis by simp
qed

text \<open>
  The boundaries of the claim: 1h19m gives 1h00m, 1h20m and 1h49m give 1h30m, 1h50m
  gives 2h00m.
\<close>

theorem rounding_policy_witness:
  "(\<exists>r. calculate_duration \<lparr>dt_day = 693596, dt_hour = 10, dt_minute = 0\<rparr>
                              \<lparr>dt_day = 693596, dt_hour = 11, dt_minute = 19\<rparr> = Some r
        \<and> rounded_hours r = 1 \<and> rounded_minutes r = 0)
 \<and> (\<exists>r. calculate_duration \<lparr>dt_day = 693596, dt_hour = 10, dt_minute = 0\<rparr>
                              \<lparr>dt_day = 693596, dt_hour = 11, dt_minute = 20\<rparr> = Some r
        \<and> rounded_hours r = 1 \<and> rounded_minutes r = 30)
 \<and> (\<exists>r. calculate_duration \<lparr>dt_day = 693596, dt_hour = 10, dt_minute = 0\<rparr>
                              \<lparr>dt_day = 693596, dt_hour = 11, dt_minute = 49\<rparr> = Some r
        \<and> rounded_hours r = 1 \<and> rounded_minutes r = 30)
 \<and> (\<exists>r. calculate_duration \<lparr>dt_day = 693596, dt_hour = 10, dt_minute = 0\<rparr>
                              \<lparr>dt_day = 693596, dt_hour = 11, dt_minute = 50\<rparr> = Some r
        \<and> rounded_hours r = 2 \<and> rounded_minutes r = 0)"
proof -
  let ?s = "\<lparr>dt_day = 693596, dt_hour = 10, dt_minute = 0\<rparr>"
  have a: "\<exists>r. calculate_duration ?s \<lparr>dt_day = 693596, dt_hour = 11, dt_minute = 19\<rparr> = Some r
        \<and> rounded_hours r = 1 \<and> rounded_minutes r = 0"
    using rounding_policy[of 1 19 "\<lparr>dt_day = 693596, dt_hour = 11, dt_minute = 19\<rparr>" ?s]
    by (auto simp add: datetime_sub_def datetime_secs_def)
  have b: "\<exists>r. calculate_duration ?s \<lparr>dt_day = 693596, dt_hour = 11, dt_minute = 20\<rparr> = Some r
        \<and> rounded_hours r = 1 \<and> rounded_minutes r = 30"
    using rounding_policy[of 1 20 "\<lparr>dt_day = 693596, dt_hour = 11, dt_minute = 20\<rparr>" ?s]
    by (auto simp add: datetime_sub_def datetime_secs_def)
  have c: "\<exists>r. calculate_duration ?s \<lparr>dt_day = 693596, dt_hour = 11, dt_minute = 49\<rparr> = Some r
        \<and> rounded_hours r = 1 \<and> rounded_minutes r = 30"
    using rounding_policy[of 1 49 "\<lparr>dt_day = 693596, dt_hour = 11, dt_minute = 49\<rparr>" ?s]
    by (auto simp add: datetime_sub_def datetime_secs_def)
  have d: "\<exists>r. calculate_duration ?s \<lparr>dt_day = 693596, dt_hour = 11, dt_minute = 50\<rparr> = Some r
        \<and> rounded_hours r = 2 \<and> rounded_minutes r = 0"
    using rounding_policy[of 1 50 "\<lparr>dt_day = 693596, dt_hour = 11, dt_minute = 50\<rparr>" ?s]
    by (auto simp add: datetime_sub_def datetime_secs_def)
  from a b c d show ?thesis by blast
qed

subsection \<open>The invariant of a session record\<close>

lemma calculate_duration_fields:
  assumes "datetime_sub end_t start_t = 60 * d" and "0 \<le> d"
    and "calculate_duration start_t end_t = Some r"
  shows "rounded_hours r = (if d mod 60 \<le> 49 then d div 60 else d div 60 + 1)"
    and "rounded_minutes r = (if 20 \<le> d mod 60 \<and> d mod 60 \<le> 49 then 30 else 0)"
    and "decimal_hours r =
             (if 20 \<le> d mod 60 \<and> d mod 60 \<le> 49 then PFloat (of_int (d div 60) + 1 / 2)
              else if d mod 60 \<le> 49 then PInt (d div 60) else PInt (d div 60 + 1))"
    and "cost r =
             (if 20 \<le> d mod 60 \<and> d mod 60 \<le> 49 then d div 60 * 220 + 110
              else if d mod 60 \<le> 49 then d div 60 * 220 else (d div 60 + 1) * 220)"
proof -
  note c = calculate_duration_minutes[OF assms(1,2)]
  have e: "Some r = calculate_duration start_t end_t" using assms(3) by simp
  show "rounded_hours r = (if d mod 60 \<le> 49 then d div 60 else d div 60 + 1)"
    using arg_cong[OF e, of "\<lambda>x. rounded_hours (the x)"] unfolding c by simp
  show "rounded_minutes r = (if 20 \<le> d mod 60 \<and> d mod 60 \<le> 49 then 30 else 0)"
    using arg_cong[OF e, of "\<lambda>x. rounded_minutes (the x)"] unfolding c by simp
  show "decimal_hours r =
             (if 20 \<le> d mod 60 \<and> d mod 60 \<le> 49 then PFloat (of_int (d div 60) + 1 / 2)
              else if d mod 60 \<le> 49 then PInt (d div 60) else PInt (d div 60 + 1))"
    using arg_cong[OF e, of "\<lambda>x. decimal_hours (the x)"] unfolding c by simp
  show "cost r =
             (if 20 \<le> d mod 60 \<and> d mod 60 \<le> 49 then d div 60 * 220 + 110
              else if d mod 60 \<le> 49 then d div 60 * 220 else (d div 60 + 1) * 220)"
    using arg_cong[OF e, of "\<lambda>x. cost (the x)"] unfolding c by simp
qed

text \<open>
  Claim C2. In every record the calculator returns, the rounded minutes are 0 or 30,
  the rounded hours are not negative, the decimal hours are the rounded hours plus one
  half exactly when the rounded minutes are 30, and the cost is 220 for each rounded
  hour plus 110 when the rounded minutes are 30.
\<close>

theorem session_invariant:
  assumes "calculate_duration start_t end_t = Some r"
  shows "(rounded_minutes r = 0 \<or> rounded_minutes r = 30)
       \<and> 0 \<le> rounded_hours r
       \<and> num_value (decimal_hours r) =
           (if rounded_minutes r = 30 then of_int (rounded_hours r) + 1 / 2 else of_int (rounded_hours r))
       \<and> cost r = rounded_hours r * 220 + (if rounded_minutes r = 30 then 110 else 0)"
proof -
  define d where "d = datetime_sub end_t start_t div 60"
  have "\<not> datetime_sub end_t start_t < 0"
    using assms calculate_duration_None_iff[of start_t end_t] by auto
  then have nonneg: "0 \<le> d" by (simp add: d_def)
  have sub: "datetime_sub end_t start_t = 60 * d"
    unfolding d_def by (rule datetime_sub_whole_minutes)
  note f = calculate_duration_fields[OF sub nonneg assms]
  have q: "0 \<le> d div 60" using nonneg by simp
  have 1: "rounded_minutes r = 0 \<or> rounded_minutes r = 30" by (simp add: f(2))
  have 2: "0 \<le> rounded_hours r" using q by (simp add: f(1))
  have 3: "num_value (decimal_hours r) =
           (if rounded_minutes r = 30 then of_int (rounded_hours r) + 1 / 2 else of_int (rounded_hours r))"
    by (simp add: f(1,2,3))
  have 4: "cost r = rounded_hours r * 220 + (if rounded_minutes r = 30 then 110 else 0)"
    by (simp add: f(1,2,4))
  from 1 2 3 4 show ?thesis by (intro conjI)
qed

theorem session_invariant_witness:
  "\<exists>r. calculate_duration \<lparr>dt_day = 693596, dt_hour = 9, dt_minute = 0\<rparr>
                           \<lparr>dt_day = 693596, dt_hour = 10, dt_minute = 25\<rparr> = Some r
       \<and> (rounded_minutes r = 0 \<or> rounded_minutes r = 30)
       \<and> 0 \<le> rounded_hours r
       \<and> num_value (decimal_hours r) =
           (if rounded_minutes r = 30 then of_int (rounded_hours r) + 1 / 2 else of_int (rounded_hours r))
       \<and> cost r = rounded_hours r * 220 + (if rounded_minutes r = 30 then 110 else 0)"
proof -
  have "calculate_duration \<lparr>dt_day = 693596, dt_hour = 9, dt_minute = 0\<rparr>
          \<lparr>dt_day = 693596, dt_hour = 10, dt_minute = 25\<rparr> \<noteq> None"
    by (simp add: calculate_duration_None_iff datetime_sub_def datetime_secs_def)
  then obtain r where r: "calculate_duration \<lparr>dt_day = 693596, dt_hour = 9, dt_minute = 0\<rparr>
          \<lparr>dt_day = 693596, dt_hour = 10, dt_minute = 25\<rparr> = Some r"
    by blast
  from session_invariant[OF r] r show ?thesis by (intro exI[of _ r]) simp
qed

subsection \<open>Failure of the calculator\<close>

text \<open>
  Claim C6. The calculator returns no record exactly when the end is before the start,
  that is when the duration in seconds is negative; in every other case it returns a
  record. From 10:00 to 09:00 on the same day there is no record.
\<close>

theorem negative_duration_only_failure:
  "(calculate_duration start_t end_t = None \<longleftrightarrow> datetime_sub end_t start_t < 0)
   \<and> calculate_duration \<lparr>dt_day = 693596, dt_hour = 10, dt_minute = 0\<rparr>
                          \<lparr>dt_day = 693596, dt_hour = 9, dt_minute = 0\<rparr> = None"
  by (simp add: calculate_duration_None_iff datetime_sub_def datetime_secs_def)

theorem negative_duration_only_failure_witness:
  "calculate_duration \<lparr>dt_day = 693596, dt_hour = 9, dt_minute = 0\<rparr>
                       \<lparr>dt_day = 693596, dt_hour = 10, dt_minute = 0\<rparr> \<noteq> None"
  using negative_duration_only_failure[of "\<lparr>dt_day = 693596, dt_hour = 9, dt_minute = 0\<rparr>"
      "\<lparr>dt_day = 693596, dt_hour = 10, dt_minute = 0\<rparr>"]
  by (simp add: datetime_sub_def datetime_secs_def)

subsection \<open>Sessions over midnight and sessions of no length\<close>

lemma format_2f_0: "format_2f 0 = ''0.00''"
  by (simp add: format_2f_def str_int_def str_nat.simps digit_char_def)

lemma format_2f_440: "format_2f 440 = ''440.00''"
  by (simp add: format_2f_def str_int_def str_nat.simps digit_char_def)

lemma ex_wrap: "session_of_inputs ''23:00'' ''01:00'' =
          Some \<lparr>start_time = ''23:00'', end_time = ''01:00'',
                original_hours = 2, original_minutes = 0,
                rounded_hours = 2, rounded_minutes = 0,
                decimal_hours = PInt 2, cost = 440, formatted_cost = ''$440.00''\<rparr>"
proof -
  have p1: "parse_time_input ''23:00'' = Some \<lparr>dt_day = 693596, dt_hour = 23, dt_minute = 0\<rparr>"
    by code_simp
  have p2: "parse_time_input ''01:00'' = Some \<lparr>dt_day = 693596, dt_hour = 1, dt_minute = 0\<rparr>"
    by code_simp
  have "datetime_sub \<lparr>dt_day = 693597, dt_hour = 1, dt_minute = 0\<rparr>
          \<lparr>dt_day = 693596, dt_hour = 23, dt_minute = 0\<rparr> = 60 * 120"
    by (simp add: datetime_sub_def datetime_secs_def)
  from calculate_duration_minutes[OF this] show ?thesis
    by (simp add: session_of_inputs_def session_of_times_def p1 p2 datetime_less_def datetime_secs_def
        add_days_def strftime_HM_def zero_pad2_def str_nat.simps digit_char_def format_2f_440)
qed

text \<open>
  Claim C7. When the end of a session is before its start on the same day, the end is
  moved to the next day. The record then holds the start and the end as zero-padded
  \<^verbatim>\<open>HH:MM\<close> strings, the end with its hour modulo 24, and the duration and the cost
  are those of the wrapped duration of \<open>d\<close> minutes. From 23:00 to 01:00 the duration is
  2h00m, rounded 2h00m, the cost 440 and the end \<^verbatim>\<open>01:00\<close>.
\<close>

theorem day_wrap_session:
  assumes "dt_day end_t = dt_day start_t"
    and "dt_hour start_t < 24" and "dt_minute start_t < 60"
    and "dt_hour end_t < 24" and "dt_minute end_t < 60"
    and "datetime_less end_t start_t"
    and "d = 1440 + (60 * int (dt_hour end_t) + int (dt_minute end_t))
               - (60 * int (dt_hour start_t) + int (dt_minute start_t))"
  shows "(\<exists>r. session_of_times start_t end_t = Some r
            \<and> start_time r = zero_pad2 (dt_hour start_t) @ '':'' @ zero_pad2 (dt_minute start_t)
            \<and> end_time r = zero_pad2 ((dt_hour end_t + 24) mod 24) @ '':'' @ zero_pad2 (dt_minute end_t)
            \<and> original_hours r = d div 60 \<and> original_minutes r = d mod 60
            \<and> rounded_hours r = (if d mod 60 \<le> 49 then d div 60 else d div 60 + 1)
            \<and> rounded_minutes r = (if 20 \<le> d mod 60 \<and> d mod 60 \<le> 49 then 30 else 0)
            \<and> cost r = rounded_hours r * 220 + (if rounded_minutes r = 30 then 110 else 0))
       \<and> session_of_inputs ''23:00'' ''01:00'' =
          Some \<lparr>start_time = ''23:00'', end_time = ''01:00'',
                original_hours = 2, original_minutes = 0,
                rounded_hours = 2, rounded_minutes = 0,
                decimal_hours = PInt 2, cost = 440, formatted_cost = ''$440.00''\<rparr>"
proof -
  have sub: "datetime_sub (add_days end_t 1) start_t = 60 * d"
    using assms(1,7) by (simp add: datetime_sub_def datetime_secs_def add_days_def)
  have nonneg: "0 \<le> d" using assms(2,3,7) by simp
  have hm: "dt_hour end_t mod 24 = dt_hour end_t" using assms(4) by simp
  have "session_of_times start_t end_t = calculate_duration start_t (add_days end_t 1)"
    using assms(6) by (simp add: session_of_times_def)
  with calculate_duration_minutes[OF sub nonneg] ex_wrap show ?thesis
    by (simp add: strftime_HM_def add_days_def hm)
qed

theorem day_wrap_session_witness:
  "\<exists>r. session_of_times \<lparr>dt_day = 693596, dt_hour = 22, dt_minute = 30\<rparr>
                         \<lparr>dt_day = 693596, dt_hour = 0, dt_minute = 20\<rparr> = Some r
       \<and> start_time r = ''22:30'' \<and> end_time r = ''00:20''
       \<and> original_hours r = 1 \<and> original_minutes r = 50
       \<and> rounded_hours r = 2 \<and> rounded_minutes r = 0 \<and> cost r = 440"
  using day_wrap_session[of "\<lparr>dt_day = 693596, dt_hour = 0, dt_minute = 20\<rparr>"
      "\<lparr>dt_day = 693596, dt_hour = 22, dt_minute = 30\<rparr>" 110]
  by (auto simp add: datetime_less_def datetime_secs_def zero_pad2_def str_nat.simps digit_char_def)

text \<open>
  Claim C10. A session whose end equals its start is not wrapped and is not refused:
  the record has the duration 0h 0m, the rounded duration 0h 0m, decimal hours 0, cost
  0 and the formatted cost \<^verbatim>\<open>$0.00\<close>.
\<close>

theorem same_time_session:
  "session_of_times t t =
     Some \<lparr>start_time = strftime_HM t, end_time = strftime_HM t,
           original_hours = 0, original_minutes = 0,
           rounded_hours = 0, rounded_minutes = 0,
           decimal_hours = PInt 0, cost = 0, formatted_cost = ''$0.00''\<rparr>"
proof -
  have "datetime_sub t t = 60 * 0" by (simp add: datetime_sub_def)
  from calculate_duration_minutes[OF this] show ?thesis
    by (simp add: session_of_times_def datetime_less_def format_2f_0)
qed

subsection \<open>What the parser accepts\<close>

lemma is_dec_cases:
  "is_dec c \<longleftrightarrow> c = CHR ''0'' \<or> c = CHR ''1'' \<or> c = CHR ''2'' \<or> c = CHR ''3'' \<or> c = CHR ''4''
     \<or> c = CHR ''5'' \<or> c = CHR ''6'' \<or> c = CHR ''7'' \<or> c = CHR ''8'' \<or> c = CHR ''9''"
  by (simp add: is_dec_def)

lemma colon_not_dec: "\<not> is_dec (CHR '':'')"
  by (simp add: is_dec_def)

lemma digits_no_colon: "list_all is_dec s \<Longrightarrow> CHR '':'' \<notin> set s"
  using colon_not_dec by (auto simp: list_all_iff)

lemma spec_component_no_colon: "spec_component hi hs \<Longrightarrow> CHR '':'' \<notin> set hs"
  by (simp add: spec_component_def digits_no_colon)

lemma digit_val_less: "is_dec c \<Longrightarrow> digit_val c < 10"
  unfolding is_dec_cases by (elim disjE) (simp_all add: digit_val_def)

lemma tens_digit_le_2: "is_dec a \<Longrightarrow> digit_val a \<le> 2 \<longleftrightarrow> a = CHR ''2'' \<or> a \<in> set ''01''"
  unfolding is_dec_cases by (elim disjE) (simp_all add: digit_val_def)

lemma tens_digit_eq_2: "is_dec a \<Longrightarrow> digit_val a = 2 \<longleftrightarrow> a = CHR ''2''"
  unfolding is_dec_cases by (elim disjE) (simp_all add: digit_val_def)

lemma units_digit_le_3: "is_dec b \<Longrightarrow> digit_val b \<le> 3 \<longleftrightarrow> b \<in> set ''0123''"
  unfolding is_dec_cases by (elim disjE) (simp_all add: digit_val_def)

lemma tens_digit_le_5: "is_dec a \<Longrightarrow> digit_val a \<le> 5 \<longleftrightarrow> a \<in> set ''012345''"
  unfolding is_dec_cases by (elim disjE) (simp_all add: digit_val_def)

lemma int_of_digits_1: "int_of_digits [a] = digit_val a"
  by (simp add: int_of_digits_def)

lemma int_of_digits_2: "int_of_digits [a, b] = 10 * digit_val a + digit_val b"
  by (simp add: int_of_digits_def)

lemma two_not_01: "CHR ''2'' \<notin> set ''01''"
  by simp

lemma two_digit_hour:
  assumes "is_dec a" "is_dec b"
  shows "int_of_digits [a, b] \<le> 23 \<longleftrightarrow> (a = CHR ''2'' \<and> b \<in> set ''0123'') \<or> a \<in> set ''01''"
proof -
  have "10 * digit_val a + digit_val b \<le> 23 \<longleftrightarrow>
        (digit_val a = 2 \<and> digit_val b \<le> 3) \<or> (digit_val a \<le> 2 \<and> digit_val a \<noteq> 2)"
    using digit_val_less[OF assms(2)] by arith
  then show ?thesis
    unfolding int_of_digits_2
    using tens_digit_le_2[OF assms(1)] tens_digit_eq_2[OF assms(1)] units_digit_le_3[OF assms(2)]
      two_not_01
    by blast
qed

lemma two_digit_minute:
  assumes "is_dec a" "is_dec b"
  shows "int_of_digits [a, b] \<le> 59 \<longleftrightarrow> a \<in> set ''012345''"
proof -
  have "10 * digit_val a + digit_val b \<le> 59 \<longleftrightarrow> digit_val a \<le> 5"
    using digit_val_less[OF assms(2)] by arith
  then show ?thesis
    unfolding int_of_digits_2 using tens_digit_le_5[OF assms(1)] by simp
qed

lemma spec_component_one: "spec_component hi [a] \<longleftrightarrow> is_dec a \<and> digit_val a \<le> hi"
  by (simp add: spec_component_def int_of_digits_1)

lemma spec_hour_two:
  "spec_component 23 [a, b] \<longleftrightarrow>
     is_dec a \<and> is_dec b \<and> ((a = CHR ''2'' \<and> b \<in> set ''0123'') \<or> a \<in> set ''01'')"
  using two_digit_hour[of a b] by (auto simp: spec_component_def)

lemma spec_minute_two:
  "spec_component 59 [a, b] \<longleftrightarrow> is_dec a \<and> is_dec b \<and> a \<in> set ''012345''"
  using two_digit_minute[of a b] by (auto simp: spec_component_def)

lemma digit_val_le: "is_dec a \<Longrightarrow> digit_val a \<le> 23 \<and> digit_val a \<le> 59"
  using digit_val_less[of a] by simp

lemma hour_alternatives_sound:
  assumes "(hs, r) \<in> set (hour_alternatives s)"
  shows "s = hs @ r \<and> spec_component 23 hs"
proof -
  have d: "\<And>c. c \<in> set ''0123'' \<Longrightarrow> is_dec c" "\<And>c. c \<in> set ''01'' \<Longrightarrow> is_dec c"
    "is_dec (CHR ''2'')"
    by (auto simp: is_dec_def)
  from assms consider
      (a) c1 c2 r' where "s = c1 # c2 # r'" "c1 = CHR ''2''" "c2 \<in> set ''0123''" "hs = [c1, c2]" "r = r'"
    | (b) c1 c2 r' where "s = c1 # c2 # r'" "c1 \<in> set ''01''" "is_dec c2" "hs = [c1, c2]" "r = r'"
    | (c) c1 r' where "s = c1 # r'" "is_dec c1" "hs = [c1]" "r = r'"
    unfolding hour_alternatives_def
    by (auto split: list.splits if_splits simp del: set_simps)
  then show ?thesis
  proof cases
    case a
    then show ?thesis using d by (simp add: spec_hour_two del: set_simps)
  next
    case b
    then show ?thesis using d by (simp add: spec_hour_two del: set_simps)
  next
    case c
    then show ?thesis using digit_val_le by (simp add: spec_component_one)
  qed
qed

lemma minute_alternatives_sound:
  assumes "(ms, r) \<in> set (minute_alternatives s)"
  shows "s = ms @ r \<and> spec_component 59 ms"
proof -
  have d: "\<And>c. c \<in> set ''012345'' \<Longrightarrow> is_dec c"
    by (auto simp: is_dec_def)
  from assms consider
      (a) c1 c2 r' where "s = c1 # c2 # r'" "c1 \<in> set ''012345''" "is_dec c2" "ms = [c1, c2]" "r = r'"
    | (c) c1 r' where "s = c1 # r'" "is_dec c1" "ms = [c1]" "r = r'"
    unfolding minute_alternatives_def
    by (auto split: list.splits if_splits simp del: set_simps)
  then show ?thesis
  proof cases
    case a
    then show ?thesis using d by (simp add: spec_minute_two del: set_simps)
  next
    case c
    then show ?thesis using digit_val_le by (simp add: spec_component_one)
  qed
qed

lemma length_1_or_2: "(length s = 1 \<or> length s = 2) \<longleftrightarrow> (\<exists>a. s = [a]) \<or> (\<exists>a b. s = [a, b])"
  by (cases s; cases "tl s"; cases "tl (tl s)") auto

lemma hour_group_first:
  assumes "spec_component 23 hs"
  shows "concat (map (\<lambda>(h, r).
             case r of c # r1 \<Rightarrow>
               (if c = CHR '':'' then map (\<lambda>(m, r2). (h, m, r2)) (minute_alternatives r1) else [])
             | [] \<Rightarrow> [])
           (hour_alternatives (hs @ CHR '':'' # ms)))
         = map (\<lambda>(m, r2). (hs, m, r2)) (minute_alternatives ms)"
proof -
  from assms have d: "list_all is_dec hs" and v: "int_of_digits hs \<le> 23"
    and "(\<exists>a. hs = [a]) \<or> (\<exists>a b. hs = [a, b])"
    unfolding spec_component_def length_1_or_2 by simp_all
  then consider (one) a where "hs = [a]" | (two) a b where "hs = [a, b]" by blast
  then show ?thesis
  proof cases
    case one
    then have "is_dec a" using d by simp
    then show ?thesis
      unfolding one hour_alternatives_def by (simp add: colon_not_dec)
  next
    case two
    have a: "is_dec a" and b: "is_dec b" using d two by simp_all
    have bc: "b \<noteq> CHR '':''" using b colon_not_dec by blast
    have cond: "(a = CHR ''2'' \<and> b \<in> set ''0123'') \<or> a \<in> set ''01''"
      using two_digit_hour[OF a b] v two by simp
    have h: "hour_alternatives (a # b # CHR '':'' # ms) = [([a, b], CHR '':'' # ms), ([a], b # CHR '':'' # ms)]"
    proof (cases "a = CHR ''2''")
      case True
      then have "b \<in> set ''0123''" using cond by simp
      then show ?thesis using True a b by (simp add: hour_alternatives_def)
    next
      case False
      then have "a \<in> set ''01''" using cond by blast
      then show ?thesis using False a b by (simp add: hour_alternatives_def)
    qed
    show ?thesis unfolding two using h bc by simp
  qed
qed

lemma minute_group_first:
  assumes "spec_component 59 ms"
  shows "\<exists>rest. minute_alternatives ms = (ms, []) # rest"
proof -
  from assms have d: "list_all is_dec ms" and v: "int_of_digits ms \<le> 59"
    and "(\<exists>a. ms = [a]) \<or> (\<exists>a b. ms = [a, b])"
    unfolding spec_component_def length_1_or_2 by simp_all
  then consider (one) a where "ms = [a]" | (two) a b where "ms = [a, b]" by blast
  then show ?thesis
  proof cases
    case one
    then have "is_dec a" using d by simp
    then show ?thesis unfolding one minute_alternatives_def by simp
  next
    case two
    have a: "is_dec a" and b: "is_dec b" using d two by simp_all
    have "a \<in> set ''012345''" using two_digit_minute[OF a b] v two by simp
    then show ?thesis unfolding two minute_alternatives_def using a b by simp
  qed
qed
lemma strptime_HM_accepts:
  assumes "spec_component 23 hs" and "spec_component 59 ms"
  shows "strptime_HM (hs @ CHR '':'' # ms) =
           Some \<lparr>dt_day = 693596, dt_hour = int_of_digits hs, dt_minute = int_of_digits ms\<rparr>"
proof -
  obtain rest where "minute_alternatives ms = (ms, []) # rest"
    using minute_group_first[OF assms(2)] by blast
  then have "regex_match_HM (hs @ CHR '':'' # ms) = Some (hs, ms, [])"
    unfolding regex_match_HM_def hour_group_first[OF assms(1)] by simp
  then show ?thesis by (simp add: strptime_HM_def)
qed

lemma strptime_HM_Some:
  assumes "strptime_HM s = Some t"
  shows "\<exists>hs ms. s = hs @ CHR '':'' # ms \<and> spec_component 23 hs \<and> spec_component 59 ms
           \<and> t = \<lparr>dt_day = 693596, dt_hour = int_of_digits hs, dt_minute = int_of_digits ms\<rparr>"
proof -
  from assms obtain hs ms where m: "regex_match_HM s = Some (hs, ms, [])"
    and t: "t = \<lparr>dt_day = 693596, dt_hour = int_of_digits hs, dt_minute = int_of_digits ms\<rparr>"
    by (auto simp: strptime_HM_def split: option.splits if_splits)
  let ?f = "\<lambda>(h, r). case r of c # r1 \<Rightarrow>
               (if c = CHR '':'' then map (\<lambda>(m, r2). (h, m, r2)) (minute_alternatives r1) else [])
             | [] \<Rightarrow> []"
  from m obtain xs where "concat (map ?f (hour_alternatives s)) = (hs, ms, []) # xs"
    unfolding regex_match_HM_def by (auto split: list.splits)
  then have "(hs, ms, []) \<in> set (concat (map ?f (hour_alternatives s)))"
    by (metis list.set_intros(1))
  then obtain ys where "ys \<in> set (map ?f (hour_alternatives s))" and ys: "(hs, ms, []) \<in> set ys"
    unfolding set_concat by blast
  then obtain p where "p \<in> set (hour_alternatives s)" and "ys = ?f p"
    unfolding set_map by blast
  then obtain h r where hr: "(h, r) \<in> set (hour_alternatives s)" and "(hs, ms, []) \<in> set (?f (h, r))"
    using ys by (cases p) auto
  then obtain r1 where r: "r = CHR '':'' # r1" and "(ms, []) \<in> set (minute_alternatives r1)" and "h = hs"
    by (auto split: list.splits if_splits)
  with hour_alternatives_sound[OF hr] minute_alternatives_sound[of ms "[]" r1] t
  show ?thesis by auto
qed

lemma takeWhile_until: "c \<notin> set a \<Longrightarrow> takeWhile (\<lambda>x. x \<noteq> c) (a @ c # b) = a"
  by (induction a) auto

lemma takeWhile_stops:
  "length (takeWhile P s) < length s \<Longrightarrow> \<exists>x r. s = takeWhile P s @ x # r \<and> \<not> P x"
  by (induction s) (auto split: if_splits)

lemma spec_hour_minute_iff:
  "spec_hour_minute s \<longleftrightarrow>
     (\<exists>hs ms. s = hs @ CHR '':'' # ms \<and> spec_component 23 hs \<and> spec_component 59 ms)"
proof
  define hs where "hs = takeWhile (\<lambda>c. c \<noteq> CHR '':'') s"
  assume "spec_hour_minute s"
  then have l: "length hs < length s"
    and h: "spec_component 23 hs"
    and m: "spec_component 59 (drop (length hs + 1) s)"
    by (simp_all add: spec_hour_minute_def Let_def hs_def)
  from takeWhile_stops[OF l[unfolded hs_def]] obtain r where s: "s = hs @ CHR '':'' # r"
    unfolding hs_def by auto
  have "drop (length hs + 1) s = r" by (subst s) simp
  then have m': "spec_component 59 r" using m by (simp only:)
  have "s = hs @ CHR '':'' # r \<and> spec_component 23 hs \<and> spec_component 59 r"
    by (intro conjI) (rule s, rule h, rule m')
  then show "\<exists>hs ms. s = hs @ CHR '':'' # ms \<and> spec_component 23 hs \<and> spec_component 59 ms"
    by (intro exI)
next
  assume "\<exists>hs ms. s = hs @ CHR '':'' # ms \<and> spec_component 23 hs \<and> spec_component 59 ms"
  then obtain hs ms where s: "s = hs @ CHR '':'' # ms"
    and h: "spec_component 23 hs" and m: "spec_component 59 ms"
    by blast
  have "takeWhile (\<lambda>c. c \<noteq> CHR '':'') (hs @ CHR '':'' # ms) = hs"
    using spec_component_no_colon[OF h] by (rule takeWhile_until)
  then show "spec_hour_minute s"
    using h m by (simp add: spec_hour_minute_def s)
qed

lemma strip_id:
  assumes "s \<noteq> []" "\<not> is_space (hd s)" "\<not> is_space (last s)"
  shows "strip s = s"
proof -
  from assms(1,2) have 1: "dropWhile is_space s = s" by (cases s) auto
  from assms(1,3) have "dropWhile is_space (rev s) = rev s"
    by (cases "rev s") (auto simp: last_rev hd_rev dest: arg_cong[where f = hd])
  with 1 show ?thesis by (simp add: strip_def)
qed

lemma is_dec_not_space: "is_dec c \<Longrightarrow> \<not> is_space c"
  by (auto simp: is_dec_cases is_space_def)

lemma is_dec_not_sep: "is_dec c \<Longrightarrow> c \<noteq> CHR ''.'' \<and> c \<noteq> CHR '';'' \<and> c \<noteq> CHR '','' \<and> c \<noteq> CHR '':''"
  by (auto simp: is_dec_cases)

lemma sub_separators_digits: "list_all is_dec s \<Longrightarrow> sub_separators s = s"
  unfolding sub_separators_def by (intro map_idI) (auto simp: list_all_iff dest: is_dec_not_sep)

lemma sub_commas_digits: "list_all is_dec s \<Longrightarrow> sub_commas s = s"
  unfolding sub_commas_def by (intro map_idI) (auto simp: list_all_iff dest: is_dec_not_sep)

lemma normalize_separated:
  assumes hs: "list_all is_dec hs" "hs \<noteq> []" and ms: "list_all is_dec ms" "ms \<noteq> []"
    and sep: "sep = CHR '':'' \<or> sep = CHR ''.'' \<or> sep = CHR '';''"
  shows "normalize (hs @ sep # ms) = hs @ CHR '':'' # ms"
proof -
  have 1: "sub_separators (hs @ sep # ms) = hs @ CHR '':'' # ms"
    using sub_separators_digits[OF hs(1)] sub_separators_digits[OF ms(1)] sep
    by (auto simp: sub_separators_def)
  have 2: "sub_commas (hs @ CHR '':'' # ms) = hs @ CHR '':'' # ms"
    using sub_commas_digits[OF hs(1)] sub_commas_digits[OF ms(1)]
    by (auto simp: sub_commas_def)
  have "is_dec (hd hs)" "is_dec (last ms)"
    using hs ms by (auto simp: list_all_iff)
  then have 3: "strip (hs @ CHR '':'' # ms) = hs @ CHR '':'' # ms"
    using hs(2) ms(2) by (intro strip_id) (auto dest: is_dec_not_space)
  have "\<not> char_isdigit (CHR '':'')" by (simp add: char_isdigit_def is_dec_def)
  then have 4: "insert_colon (hs @ CHR '':'' # ms) = hs @ CHR '':'' # ms"
    by (simp add: insert_colon_def isdigit_def)
  show ?thesis by (simp add: normalize_def 1 2 3 4)
qed

lemma normalize_four_digits:
  assumes hs: "list_all is_dec hs" "length hs = 2" and ms: "list_all is_dec ms" "length ms = 2"
  shows "normalize (hs @ ms) = hs @ CHR '':'' # ms"
proof -
  have d: "list_all is_dec (hs @ ms)" using hs ms by simp
  have ne: "hs @ ms \<noteq> []" using hs(2) by auto
  have "hd (hs @ ms) \<in> set (hs @ ms)" "last (hs @ ms) \<in> set (hs @ ms)"
    using ne by (rule hd_in_set, rule last_in_set)
  then have "is_dec (hd (hs @ ms))" "is_dec (last (hs @ ms))"
    using d unfolding list_all_iff by blast+
  then have 3: "strip (hs @ ms) = hs @ ms"
    using ne by (intro strip_id) (auto dest: is_dec_not_space simp del: hd_append last_append)
  have "isdigit (hs @ ms)"
    using d ne by (auto simp: isdigit_def char_isdigit_def list_all_iff)
  then have 4: "insert_colon (hs @ ms) = hs @ CHR '':'' # ms"
    using hs(2) ms(2) by (simp add: insert_colon_def)
  show ?thesis
    by (simp add: normalize_def sub_separators_digits[OF d] sub_commas_digits[OF d] 3 4)
qed

lemma spec_component_digits: "spec_component hi s \<Longrightarrow> list_all is_dec s \<and> s \<noteq> []"
  by (auto simp: spec_component_def)

lemma below_ten: "(d::nat) < 10 \<Longrightarrow> d = 0 \<or> d = 1 \<or> d = 2 \<or> d = 3 \<or> d = 4 \<or> d = 5 \<or> d = 6 \<or> d = 7 \<or> d = 8 \<or> d = 9"
  by arith

lemma digit_char_dec: "d < 10 \<Longrightarrow> is_dec (digit_char d) \<and> digit_val (digit_char d) = d"
  by (drule below_ten, elim disjE) (simp_all add: digit_char_def is_dec_def digit_val_def)

lemma str_nat_one: "n < 10 \<Longrightarrow> str_nat n = [digit_char n]"
  by (simp add: str_nat.simps)

lemma str_nat_two: "10 \<le> n \<Longrightarrow> n < 100 \<Longrightarrow> str_nat n = [digit_char (n div 10), digit_char (n mod 10)]"
  by (subst str_nat.simps) (simp add: str_nat_one)

lemma zero_pad2_digits: "n < 100 \<Longrightarrow> zero_pad2 n = [digit_char (n div 10), digit_char (n mod 10)]"
  by (cases "n < 10") (simp_all add: zero_pad2_def str_nat_one str_nat_two digit_char_def)

lemma zero_pad2_component:
  assumes "n \<le> hi" "n < 100"
  shows "spec_component hi (zero_pad2 n) \<and> int_of_digits (zero_pad2 n) = n \<and> length (zero_pad2 n) = 2"
proof -
  have "n div 10 < 10" "n mod 10 < 10" using assms(2) by simp_all
  then show ?thesis
    using assms(1) digit_char_dec[of "n div 10"] digit_char_dec[of "n mod 10"]
    by (simp add: zero_pad2_digits[OF assms(2)] spec_component_def int_of_digits_2)
qed

lemma str_nat_component:
  assumes "n \<le> hi" "n < 100"
  shows "spec_component hi (str_nat n) \<and> int_of_digits (str_nat n) = n"
proof (cases "n < 10")
  case True
  then show ?thesis
    using assms(1) digit_char_dec[of n] by (simp add: str_nat_one spec_component_one int_of_digits_1)
next
  case False
  then have "str_nat n = zero_pad2 n" by (simp add: zero_pad2_def)
  then show ?thesis using zero_pad2_component[OF assms] by simp
qed

lemma hour_spellings:
  assumes "h < 24"
  shows "spec_component 23 (zero_pad2 h) \<and> int_of_digits (zero_pad2 h) = h \<and> length (zero_pad2 h) = 2
       \<and> spec_component 23 (str_nat h) \<and> int_of_digits (str_nat h) = h"
  using zero_pad2_component[of h 23] str_nat_component[of h 23] assms by simp

lemma minute_spellings:
  assumes "m < 60"
  shows "spec_component 59 (zero_pad2 m) \<and> int_of_digits (zero_pad2 m) = m \<and> length (zero_pad2 m) = 2
       \<and> spec_component 59 (str_nat m) \<and> int_of_digits (str_nat m) = m"
  using zero_pad2_component[of m 59] str_nat_component[of m 59] assms by simp

text \<open>
  Claim C3. For an hour below 24 and a minute below 60, every spelling with a colon, a
  full stop or a semicolon between the hour and the minute, each written with two
  digits or without a leading zero, and the spelling of four digits without a
  separator, is parsed to the same date-time of that hour and minute.
\<close>

theorem parse_time_input_spellings:
  assumes "h < 24" and "m < 60"
    and "hs = zero_pad2 h \<or> hs = str_nat h"
    and "ms = zero_pad2 m \<or> ms = str_nat m"
    and "sep = CHR '':'' \<or> sep = CHR ''.'' \<or> sep = CHR '';''"
  shows "parse_time_input (hs @ sep # ms) = Some \<lparr>dt_day = 693596, dt_hour = h, dt_minute = m\<rparr>
       \<and> parse_time_input (zero_pad2 h @ zero_pad2 m) = Some \<lparr>dt_day = 693596, dt_hour = h, dt_minute = m\<rparr>"
proof -
  note H = hour_spellings[OF assms(1)] and M = minute_spellings[OF assms(2)]
  have hs: "spec_component 23 hs" "int_of_digits hs = h" using H assms(3) by auto
  have ms: "spec_component 59 ms" "int_of_digits ms = m" using M assms(4) by auto
  have "normalize (hs @ sep # ms) = hs @ CHR '':'' # ms"
    using spec_component_digits[OF hs(1)] spec_component_digits[OF ms(1)] assms(5)
    by (intro normalize_separated) auto
  then have 1: "parse_time_input (hs @ sep # ms) = Some \<lparr>dt_day = 693596, dt_hour = h, dt_minute = m\<rparr>"
    using strptime_HM_accepts[OF hs(1) ms(1)] hs(2) ms(2) by (simp add: parse_time_input_def)
  have "normalize (zero_pad2 h @ zero_pad2 m) = zero_pad2 h @ CHR '':'' # zero_pad2 m"
    using H M by (intro normalize_four_digits) (auto dest: spec_component_digits)
  then have 2: "parse_time_input (zero_pad2 h @ zero_pad2 m) = Some \<lparr>dt_day = 693596, dt_hour = h, dt_minute = m\<rparr>"
    using strptime_HM_accepts[of "zero_pad2 h" "zero_pad2 m"] H M by (simp add: parse_time_input_def)
  from 1 2 show ?thesis by simp
qed

text \<open>The examples of the claim: \<^verbatim>\<open>9.30\<close>, \<^verbatim>\<open>9;30\<close> and \<^verbatim>\<open>09:30\<close> are 09:30, and \<^verbatim>\<open>2000\<close> is 20:00.\<close>

theorem parse_time_input_spellings_witness:
  "parse_time_input ''9.30'' = Some \<lparr>dt_day = 693596, dt_hour = 9, dt_minute = 30\<rparr>
   \<and> parse_time_input ''9;30'' = Some \<lparr>dt_day = 693596, dt_hour = 9, dt_minute = 30\<rparr>
   \<and> parse_time_input ''09:30'' = Some \<lparr>dt_day = 693596, dt_hour = 9, dt_minute = 30\<rparr>
   \<and> parse_time_input ''0930'' = Some \<lparr>dt_day = 693596, dt_hour = 9, dt_minute = 30\<rparr>
   \<and> parse_time_input ''2000'' = Some \<lparr>dt_day = 693596, dt_hour = 20, dt_minute = 0\<rparr>"
proof -
  have z: "zero_pad2 9 = ''09''" "str_nat 9 = ''9''" "zero_pad2 30 = ''30''"
    "zero_pad2 20 = ''20''" "zero_pad2 0 = ''00''"
    by (simp_all add: zero_pad2_def str_nat.simps digit_char_def)
  have a: "parse_time_input ''9.30'' = Some \<lparr>dt_day = 693596, dt_hour = 9, dt_minute = 30\<rparr>"
    using parse_time_input_spellings[of 9 30 "''9''" "''30''" "CHR ''.''"] by (simp add: z)
  have b: "parse_time_input ''9;30'' = Some \<lparr>dt_day = 693596, dt_hour = 9, dt_minute = 30\<rparr>"
    using parse_time_input_spellings[of 9 30 "''9''" "''30''" "CHR '';''"] by (simp add: z)
  have c: "parse_time_input ''09:30'' = Some \<lparr>dt_day = 693596, dt_hour = 9, dt_minute = 30\<rparr>
         \<and> parse_time_input ''0930'' = Some \<lparr>dt_day = 693596, dt_hour = 9, dt_minute = 30\<rparr>"
    using parse_time_input_spellings[of 9 30 "''09''" "''30''" "CHR '':''"] by (simp add: z)
  have d: "parse_time_input ''2000'' = Some \<lparr>dt_day = 693596, dt_hour = 20, dt_minute = 0\<rparr>"
    using parse_time_input_spellings[of 20 0 "''20''" "''00''" "CHR '':''"] by (simp add: z)
  from a b c d show ?thesis by (intro conjI) simp_all
qed

lemma split_at_colon_unique:
  assumes "a @ c # b = a' @ c # b'" "c \<notin> set a" "c \<notin> set a'"
  shows "a = a' \<and> b = b'"
proof -
  have "takeWhile (\<lambda>x. x \<noteq> c) (a @ c # b) = a" using assms(2) by (rule takeWhile_until)
  moreover have "takeWhile (\<lambda>x. x \<noteq> c) (a' @ c # b') = a'" using assms(3) by (rule takeWhile_until)
  ultimately have "a = a'" using assms(1) by simp
  with assms(1) show ?thesis by simp
qed

lemma parse_time_input_iff: "parse_time_input s \<noteq> None \<longleftrightarrow> spec_hour_minute (normalize s)"
proof
  assume "parse_time_input s \<noteq> None"
  then obtain t where "strptime_HM (normalize s) = Some t" by (auto simp: parse_time_input_def)
  from strptime_HM_Some[OF this] show "spec_hour_minute (normalize s)"
    unfolding spec_hour_minute_iff by blast
next
  assume "spec_hour_minute (normalize s)"
  then obtain hs ms where "normalize s = hs @ CHR '':'' # ms" "spec_component 23 hs" "spec_component 59 ms"
    unfolding spec_hour_minute_iff by blast
  then show "parse_time_input s \<noteq> None"
    using strptime_HM_accepts[of hs ms] by (simp add: parse_time_input_def)
qed

lemma parse_time_input_out_of_range:
  assumes "list_all is_dec hs" "list_all is_dec ms" "normalize s = hs @ CHR '':'' # ms"
    and "int_of_digits hs = 24 \<or> int_of_digits ms = 60"
  shows "parse_time_input s = None"
proof (rule ccontr)
  assume "parse_time_input s \<noteq> None"
  then obtain hs' ms' where n: "normalize s = hs' @ CHR '':'' # ms'"
    and c: "spec_component 23 hs'" "spec_component 59 ms'"
    unfolding parse_time_input_iff spec_hour_minute_iff by blast
  have "hs = hs' \<and> ms = ms'"
    using n assms(3) digits_no_colon[OF assms(1)] spec_component_no_colon[OF c(1)]
    by (intro split_at_colon_unique[of hs "CHR '':''" ms hs' ms']) auto
  with c assms(4) show False by (auto simp: spec_component_def)
qed

lemma parse_8_5: "parse_time_input ''8:5'' = Some \<lparr>dt_day = 693596, dt_hour = 8, dt_minute = 5\<rparr>" by code_simp
lemma parse_2400: "parse_time_input ''2400'' = None" by code_simp
lemma parse_empty: "parse_time_input '''' = None" by code_simp

lemma strptime_HM_chars:
  assumes "strptime_HM s = Some t" "c \<in> set s"
  shows "is_dec c \<or> c = CHR '':''"
proof -
  from strptime_HM_Some[OF assms(1)] obtain hs ms where
    "s = hs @ CHR '':'' # ms" "list_all is_dec hs" "list_all is_dec ms"
    by (auto dest: spec_component_digits)
  with assms(2) show ?thesis by (auto simp: list_all_iff)
qed

lemma dropWhile_keeps: "x \<in> set xs \<Longrightarrow> \<not> P x \<Longrightarrow> x \<in> set (dropWhile P xs)"
  by (induction xs) auto

lemma strip_keeps: "c \<in> set s \<Longrightarrow> \<not> is_space c \<Longrightarrow> c \<in> set (strip s)"
  by (simp add: strip_def dropWhile_keeps)

lemma insert_colon_keeps: "c \<in> set s \<Longrightarrow> c \<in> set (insert_colon s)"
proof -
  assume c: "c \<in> set s"
  have "set (take 2 s) \<union> set (drop 2 s) = set s"
    by (metis append_take_drop_id set_append)
  with c show ?thesis by (auto simp: insert_colon_def)
qed

lemma rejected_char:
  assumes "c \<in> set s" "\<not> is_space c" "\<not> is_dec c" "c \<noteq> CHR '':''"
  shows "strptime_HM (insert_colon (strip s)) = None"
proof (cases "strptime_HM (insert_colon (strip s))")
  case (Some t)
  from strptime_HM_chars[OF Some insert_colon_keeps[OF strip_keeps[OF assms(1,2)]]] assms(3,4)
  show ?thesis by simp
qed simp

lemma comma_rejected:
  assumes "CHR '','' \<in> set s"
  shows "parse_time_input s = None" and "parse_time_input_no_comma s = None"
proof -
  have 1: "CHR '','' \<in> set (sub_separators s)"
    using assms by (force simp: sub_separators_def)
  then have 2: "CHR ''.'' \<in> set (sub_commas (sub_separators s))"
    by (force simp: sub_commas_def)
  show "parse_time_input s = None"
    unfolding parse_time_input_def normalize_def
    by (rule rejected_char[OF 2]) (simp_all add: is_space_def is_dec_def)
  show "parse_time_input_no_comma s = None"
    unfolding parse_time_input_no_comma_def
    by (rule rejected_char[OF 1]) (simp_all add: is_space_def is_dec_def)
qed

lemma no_comma_same:
  assumes "CHR '','' \<notin> set s"
  shows "parse_time_input s = parse_time_input_no_comma s"
proof -
  have "CHR '','' \<notin> set (sub_separators s)"
    using assms by (auto simp: sub_separators_def)
  then have "sub_commas (sub_separators s) = sub_separators s"
    unfolding sub_commas_def by (intro map_idI) auto
  then show ?thesis
    by (simp add: parse_time_input_def parse_time_input_no_comma_def normalize_def)
qed

text \<open>
  Claim C5. The parser and the parser without the comma rule return the same result on
  every input, and both refuse every input that contains a comma.
\<close>

theorem comma_rule_unobservable:
  "parse_time_input s = parse_time_input_no_comma s
   \<and> (CHR '','' \<in> set s \<longrightarrow> parse_time_input s = None \<and> parse_time_input_no_comma s = None)"
  using comma_rejected[of s] no_comma_same[of s] by (cases "CHR '','' \<in> set s") simp_all

theorem comma_rule_unobservable_witness:
  "CHR '','' \<in> set ''12,30'' \<and> parse_time_input ''12,30'' = None \<and> parse_time_input_no_comma ''12,30'' = None"
  using comma_rule_unobservable[of "''12,30''"] by simp

subsection \<open>The parser on Unicode strings\<close>

text \<open>
  On strings of code points below 256 the parser on Unicode strings and the parser on
  character lists are the same function: each step of the one is the step of the other
  under \<open>code_points\<close>.
\<close>

lemma of_char_below: "of_char c < (256::nat)"
  by (metis of_char_mod_256 mod_less_divisor zero_less_numeral)

lemma of_char_is: "of_char c = (of_char d :: nat) \<Longrightarrow> c = d"
  by simp

lemma of_char_colon: "of_char c = (58::nat) \<longleftrightarrow> c = CHR '':''"
  using of_char_eq_iff[of c "CHR '':''", where ?'a = nat] by simp

lemma of_char_stop: "of_char c = (46::nat) \<longleftrightarrow> c = CHR ''.''"
  using of_char_eq_iff[of c "CHR ''.''", where ?'a = nat] by simp

lemma of_char_semicolon: "of_char c = (59::nat) \<longleftrightarrow> c = CHR '';''"
  using of_char_eq_iff[of c "CHR '';''", where ?'a = nat] by simp

lemma of_char_comma: "of_char c = (44::nat) \<longleftrightarrow> c = CHR '',''"
  using of_char_eq_iff[of c "CHR '',''", where ?'a = nat] by simp

lemma of_char_digits:
  "of_char c = (48::nat) \<longleftrightarrow> c = CHR ''0''" "of_char c = (49::nat) \<longleftrightarrow> c = CHR ''1''"
  "of_char c = (50::nat) \<longleftrightarrow> c = CHR ''2''" "of_char c = (51::nat) \<longleftrightarrow> c = CHR ''3''"
  "of_char c = (52::nat) \<longleftrightarrow> c = CHR ''4''" "of_char c = (53::nat) \<longleftrightarrow> c = CHR ''5''"
  "of_char c = (54::nat) \<longleftrightarrow> c = CHR ''6''" "of_char c = (55::nat) \<longleftrightarrow> c = CHR ''7''"
  "of_char c = (56::nat) \<longleftrightarrow> c = CHR ''8''" "of_char c = (57::nat) \<longleftrightarrow> c = CHR ''9''"
  using of_char_eq_iff[of c "CHR ''0''", where ?'a = nat] of_char_eq_iff[of c "CHR ''1''", where ?'a = nat]
    of_char_eq_iff[of c "CHR ''2''", where ?'a = nat] of_char_eq_iff[of c "CHR ''3''", where ?'a = nat]
    of_char_eq_iff[of c "CHR ''4''", where ?'a = nat] of_char_eq_iff[of c "CHR ''5''", where ?'a = nat]
    of_char_eq_iff[of c "CHR ''6''", where ?'a = nat] of_char_eq_iff[of c "CHR ''7''", where ?'a = nat]
    of_char_eq_iff[of c "CHR ''8''", where ?'a = nat] of_char_eq_iff[of c "CHR ''9''", where ?'a = nat]
  by simp_all

lemma between_cases:
  "(a::nat) \<le> n \<and> n \<le> a + 9 \<longleftrightarrow>
     n = a \<or> n = a + 1 \<or> n = a + 2 \<or> n = a + 3 \<or> n = a + 4 \<or> n = a + 5 \<or> n = a + 6
     \<or> n = a + 7 \<or> n = a + 8 \<or> n = a + 9"
  by arith

lemma is_dec_code: "is_dec c \<longleftrightarrow> 48 \<le> (of_char c :: nat) \<and> (of_char c :: nat) \<le> 57"
  using between_cases[of 48 "of_char c"] by (simp add: is_dec_cases of_char_digits)

lemma in_ranges_below:
  "n < b \<Longrightarrow> in_ranges rs n \<longleftrightarrow> in_ranges (filter (\<lambda>(lo, hi). lo < b) rs) n"
  by (induction rs) (auto simp: in_ranges_def)

lemma decimal_ranges_below: "filter (\<lambda>(lo, hi). lo < 256) decimal_ranges = [(48, 57)]"
  by (simp add: decimal_ranges_def)

lemma space_ranges_below:
  "filter (\<lambda>(lo, hi). lo < 256) space_ranges = [(9, 13), (28, 32), (133, 133), (160, 160)]"
  by (simp add: space_ranges_def)

lemma isdigit_ranges_below:
  "filter (\<lambda>(lo, hi). lo < 256) isdigit_ranges = [(48, 57), (178, 179), (185, 185)]"
  by (simp add: isdigit_ranges_def)

lemma u_is_dec_below: "n < 256 \<Longrightarrow> u_is_dec n \<longleftrightarrow> ascii_digit n"
  unfolding u_is_dec_def
  by (subst in_ranges_below[of n 256]) (simp_all add: decimal_ranges_below in_ranges_def ascii_digit_def)

lemma u_digit_val_ascii:
  assumes "ascii_digit n"
  shows "u_digit_val n = n - 48"
proof -
  have "n - 48 < 10" using assms unfolding ascii_digit_def by arith
  then have "(n - 48) mod 10 = n - 48" by simp
  then show ?thesis
    using assms by (simp add: u_digit_val_def decimal_ranges_def ascii_digit_def)
qed

lemma u_is_dec_of_char: "u_is_dec (of_char c) \<longleftrightarrow> is_dec c"
  by (simp add: u_is_dec_below[OF of_char_below] ascii_digit_def is_dec_code)

lemma ascii_digit_of_char: "ascii_digit (of_char c) \<longleftrightarrow> is_dec c"
  by (simp add: ascii_digit_def is_dec_code)

lemma u_digit_val_of_char: "is_dec c \<Longrightarrow> u_digit_val (of_char c) = digit_val c"
  by (simp add: u_digit_val_ascii ascii_digit_of_char digit_val_def)

lemma space_below:
  "n < 256 \<Longrightarrow> in_ranges space_ranges n \<longleftrightarrow>
     (9 \<le> n \<and> n \<le> 13) \<or> (28 \<le> n \<and> n \<le> 32) \<or> n = 133 \<or> n = 160"
  by (subst in_ranges_below[of n 256]) (auto simp add: space_ranges_below in_ranges_def)

lemma space_of_char: "in_ranges space_ranges (of_char c) \<longleftrightarrow> is_space c"
  by (simp add: space_below[OF of_char_below] is_space_def Let_def)

lemma isdigit_below:
  "n < 256 \<Longrightarrow> in_ranges isdigit_ranges n \<longleftrightarrow> (48 \<le> n \<and> n \<le> 57) \<or> n = 178 \<or> n = 179 \<or> n = 185"
  by (subst in_ranges_below[of n 256]) (auto simp add: isdigit_ranges_below in_ranges_def)

lemma isdigit_of_char: "in_ranges isdigit_ranges (of_char c) \<longleftrightarrow> char_isdigit c"
  by (simp add: isdigit_below[OF of_char_below] char_isdigit_def Let_def is_dec_code)

lemma u_sub_separators_code_points: "u_sub_separators (code_points s) = code_points (sub_separators s)"
  using of_char_colon[of "CHR '':''"]
  by (induction s) (simp_all add: u_sub_separators_def sub_separators_def code_points_def
      of_char_stop of_char_semicolon)

lemma u_sub_commas_code_points: "u_sub_commas (code_points s) = code_points (sub_commas s)"
  using of_char_stop[of "CHR ''.''"]
  by (induction s) (simp_all add: u_sub_commas_def sub_commas_def code_points_def of_char_comma)

lemma space_comp: "in_ranges space_ranges \<circ> of_char = is_space"
  by (rule ext) (simp add: space_of_char)

lemma isdigit_comp: "in_ranges isdigit_ranges \<circ> of_char = char_isdigit"
  by (rule ext) (simp add: isdigit_of_char)

lemma u_strip_code_points: "u_strip (code_points s) = code_points (strip s)"
  by (simp add: u_strip_def strip_def code_points_def dropWhile_map rev_map space_comp)

lemma u_isdigit_code_points: "u_isdigit (code_points s) \<longleftrightarrow> isdigit s"
  by (simp add: u_isdigit_def isdigit_def code_points_def list.pred_map isdigit_comp)

lemma u_insert_colon_code_points: "u_insert_colon (code_points s) = code_points (insert_colon s)"
proof -
  have "length (code_points s) = length s" by (simp add: code_points_def)
  moreover have "take 2 (code_points s) @ 58 # drop 2 (code_points s)
      = code_points (take 2 s @ CHR '':'' # drop 2 s)"
    by (simp add: code_points_def take_map drop_map)
  ultimately show ?thesis
    by (simp add: u_insert_colon_def insert_colon_def u_isdigit_code_points)
qed

lemma u_normalize_code_points: "u_normalize (code_points s) = code_points (normalize s)"
  by (simp add: u_normalize_def normalize_def u_sub_separators_code_points
      u_sub_commas_code_points u_strip_code_points u_insert_colon_code_points)

lemma set_0123: "c \<in> set ''0123'' \<longleftrightarrow> 48 \<le> (of_char c :: nat) \<and> (of_char c :: nat) \<le> 51"
proof -
  have "48 \<le> (of_char c :: nat) \<and> (of_char c :: nat) \<le> 51 \<longleftrightarrow>
      of_char c = (48::nat) \<or> of_char c = (49::nat) \<or> of_char c = (50::nat) \<or> of_char c = (51::nat)"
    by arith
  then show ?thesis by (simp add: of_char_digits)
qed

lemma set_01: "c \<in> set ''01'' \<longleftrightarrow> of_char c = (48::nat) \<or> of_char c = (49::nat)"
  by (simp add: of_char_digits)

lemma set_012345: "c \<in> set ''012345'' \<longleftrightarrow> 48 \<le> (of_char c :: nat) \<and> (of_char c :: nat) \<le> 53"
proof -
  have "48 \<le> (of_char c :: nat) \<and> (of_char c :: nat) \<le> 53 \<longleftrightarrow>
      of_char c = (48::nat) \<or> of_char c = (49::nat) \<or> of_char c = (50::nat) \<or> of_char c = (51::nat)
      \<or> of_char c = (52::nat) \<or> of_char c = (53::nat)"
    by arith
  then show ?thesis by (simp add: of_char_digits)
qed

lemma u_hour_alternatives_code_points:
  "u_hour_alternatives (code_points s) =
     map (\<lambda>(h, r). (code_points h, code_points r)) (hour_alternatives s)"
proof (cases s)
  case Nil
  then show ?thesis by (simp add: u_hour_alternatives_def hour_alternatives_def code_points_def)
next
  case (Cons c1 t)
  show ?thesis
  proof (cases t)
    case Nil
    then show ?thesis
      using Cons
      by (simp add: u_hour_alternatives_def hour_alternatives_def code_points_def u_is_dec_of_char)
  next
    case (Cons c2 r)
    then show ?thesis
      using \<open>s = c1 # t\<close>
      by (simp add: u_hour_alternatives_def hour_alternatives_def code_points_def u_is_dec_of_char
          of_char_digits(3) set_0123[symmetric] set_01[symmetric] del: set_simps)
  qed
qed

lemma u_minute_alternatives_code_points:
  "u_minute_alternatives (code_points s) =
     map (\<lambda>(m, r). (code_points m, code_points r)) (minute_alternatives s)"
proof (cases s)
  case Nil
  then show ?thesis by (simp add: u_minute_alternatives_def minute_alternatives_def code_points_def)
next
  case (Cons c1 t)
  show ?thesis
  proof (cases t)
    case Nil
    then show ?thesis
      using Cons
      by (simp add: u_minute_alternatives_def minute_alternatives_def code_points_def u_is_dec_of_char)
  next
    case (Cons c2 r)
    then show ?thesis
      using \<open>s = c1 # t\<close>
      by (auto simp add: u_minute_alternatives_def minute_alternatives_def code_points_def
          u_is_dec_of_char set_012345 simp del: set_simps)
  qed
qed

lemma regex_match_HM_groups:
  assumes "regex_match_HM s = Some (hs, ms, rest)"
  shows "list_all is_dec hs \<and> list_all is_dec ms"
proof -
  let ?f = "\<lambda>(h, r). case r of c # r1 \<Rightarrow>
               (if c = CHR '':'' then map (\<lambda>(m, r2). (h, m, r2)) (minute_alternatives r1) else [])
             | [] \<Rightarrow> []"
  from assms obtain xs where "concat (map ?f (hour_alternatives s)) = (hs, ms, rest) # xs"
    unfolding regex_match_HM_def by (auto split: list.splits)
  then have "(hs, ms, rest) \<in> set (concat (map ?f (hour_alternatives s)))"
    by (metis list.set_intros(1))
  then obtain ys where "ys \<in> set (map ?f (hour_alternatives s))" and ys: "(hs, ms, rest) \<in> set ys"
    unfolding set_concat by blast
  then obtain p where "p \<in> set (hour_alternatives s)" and "ys = ?f p"
    unfolding set_map by blast
  then obtain h r where hr: "(h, r) \<in> set (hour_alternatives s)" and "(hs, ms, rest) \<in> set (?f (h, r))"
    using ys by (cases p) auto
  then obtain r1 where "(ms, rest) \<in> set (minute_alternatives r1)" and "h = hs"
    by (auto split: list.splits if_splits)
  with hour_alternatives_sound[OF hr] minute_alternatives_sound[of ms rest r1]
  show ?thesis by (simp add: spec_component_def)
qed

lemma u_int_of_digits_code_points:
  assumes "list_all is_dec s"
  shows "u_int_of_digits (code_points s) = int_of_digits s"
proof -
  have "foldl (\<lambda>acc c. 10 * acc + u_digit_val (of_char c)) a s
      = foldl (\<lambda>acc c. 10 * acc + digit_val c) a s" for a
    using assms by (induction s arbitrary: a) (simp_all add: u_digit_val_of_char)
  then show ?thesis
    by (simp add: u_int_of_digits_def int_of_digits_def code_points_def foldl_map)
qed

lemma u_regex_match_HM_code_points:
  "u_regex_match_HM (code_points s) =
     map_option (\<lambda>(h, m, r). (code_points h, code_points m, code_points r)) (regex_match_HM s)"
proof -
  let ?G = "\<lambda>(h, r). case r of c # r1 \<Rightarrow>
               (if c = CHR '':'' then map (\<lambda>(m, r2). (h, m, r2)) (minute_alternatives r1) else [])
             | [] \<Rightarrow> []"
  let ?Gu = "\<lambda>(h, r). case r of c # r1 \<Rightarrow>
               (if c = 58 then map (\<lambda>(m, r2). (h, m, r2)) (u_minute_alternatives r1) else [])
             | [] \<Rightarrow> []"
  let ?psi = "\<lambda>(h, m, r). (code_points h, code_points m, code_points r)"
  let ?phi = "\<lambda>(h, r). (code_points h, code_points r)"
  have step: "?Gu (?phi p) = map ?psi (?G p)" for p
  proof (cases p)
    case (Pair h r)
    show ?thesis
    proof (cases r)
      case Nil
      then show ?thesis using Pair by (simp add: code_points_def)
    next
      case (Cons c r1)
      have "code_points r = of_char c # code_points r1"
        using Cons by (simp add: code_points_def)
      then show ?thesis
        using Pair Cons
        by (simp add: of_char_colon u_minute_alternatives_code_points case_prod_beta comp_def)
    qed
  qed
  have "concat (map ?Gu (u_hour_alternatives (code_points s)))
      = concat (map (\<lambda>p. ?Gu (?phi p)) (hour_alternatives s))"
    by (simp add: u_hour_alternatives_code_points comp_def)
  also have "\<dots> = concat (map (\<lambda>p. map ?psi (?G p)) (hour_alternatives s))"
    by (simp only: step)
  also have "\<dots> = map ?psi (concat (map ?G (hour_alternatives s)))"
    by (simp add: map_concat comp_def)
  finally have eq: "concat (map ?Gu (u_hour_alternatives (code_points s)))
      = map ?psi (concat (map ?G (hour_alternatives s)))" .
  define ys where "ys = concat (map ?G (hour_alternatives s))"
  have "(case map ?psi ys of [] \<Rightarrow> None | x # _ \<Rightarrow> Some x)
      = map_option ?psi (case ys of [] \<Rightarrow> None | x # _ \<Rightarrow> Some x)"
    by (cases ys) simp_all
  then show ?thesis
    unfolding u_regex_match_HM_def regex_match_HM_def eq ys_def .
qed

lemma u_strptime_HM_code_points: "u_strptime_HM (code_points s) = strptime_HM s"
proof (cases "regex_match_HM s")
  case None
  then show ?thesis
    by (simp add: u_strptime_HM_def strptime_HM_def u_regex_match_HM_code_points)
next
  case (Some x)
  then obtain h m rest where x: "regex_match_HM s = Some (h, m, rest)"
    by (cases x) auto
  have r: "code_points rest = [] \<longleftrightarrow> rest = []" by (simp add: code_points_def)
  from regex_match_HM_groups[OF x]
  have "u_int_of_digits (code_points h) = int_of_digits h"
    and "u_int_of_digits (code_points m) = int_of_digits m"
    by (simp_all add: u_int_of_digits_code_points)
  then show ?thesis
    by (simp add: u_strptime_HM_def strptime_HM_def u_regex_match_HM_code_points x r)
qed

lemma u_parse_time_input_code_points: "u_parse_time_input (code_points s) = parse_time_input s"
  by (simp add: u_parse_time_input_def parse_time_input_def u_normalize_code_points
      u_strptime_HM_code_points)

lemma u_spec_component_code_points:
  "u_spec_component ascii_digit hi (code_points s) \<longleftrightarrow> spec_component hi s"
proof -
  have d: "list_all ascii_digit (code_points s) \<longleftrightarrow> list_all is_dec s"
    by (simp add: code_points_def list.pred_map comp_def ascii_digit_of_char)
  have l: "length (code_points s) = length s" by (simp add: code_points_def)
  show ?thesis
    unfolding u_spec_component_def spec_component_def d l
    using u_int_of_digits_code_points[of s] by auto
qed

lemma u_spec_hour_minute_code_points:
  "u_spec_hour_minute ascii_digit (code_points s) \<longleftrightarrow> spec_hour_minute s"
proof -
  have "(\<lambda>c. c \<noteq> (58::nat)) \<circ> of_char = (\<lambda>c. c \<noteq> CHR '':'')"
    by (rule ext) (simp add: of_char_colon)
  then have t: "takeWhile (\<lambda>c. c \<noteq> 58) (code_points s) = code_points (takeWhile (\<lambda>c. c \<noteq> CHR '':'') s)"
    by (simp add: code_points_def takeWhile_map)
  have l: "length (code_points x) = length x" for x by (simp add: code_points_def)
  have dr: "drop n (code_points s) = code_points (drop n s)" for n
    by (simp add: code_points_def drop_map)
  show ?thesis
    unfolding u_spec_hour_minute_def spec_hour_minute_def Let_def t l dr u_spec_component_code_points
    by simp
qed

lemma code_points_char_of:
  assumes "\<forall>c\<in>set s. c < 256"
  shows "code_points (map char_of s) = s"
  using assms by (induction s) (simp_all add: code_points_def)

lemma arabic_digits:
  "u_is_dec 1632" "u_is_dec 1633" "u_is_dec 1634" "u_is_dec 1635" "u_is_dec 1637" "u_is_dec 1641"
  "u_digit_val 1632 = 0" "u_digit_val 1633 = 1" "u_digit_val 1634 = 2" "u_digit_val 1635 = 3"
  "u_digit_val 1637 = 5" "u_digit_val 1641 = 9"
  by (simp_all add: u_is_dec_def u_digit_val_def in_ranges_def decimal_ranges_def)

lemma arabic_not_space:
  "\<not> in_ranges space_ranges 1632" "\<not> in_ranges space_ranges 1633"
  "\<not> in_ranges space_ranges 1637" "\<not> in_ranges space_ranges 1641"
  by (simp_all add: in_ranges_def space_ranges_def)

lemma u_normalize_arabic:
  "u_normalize [1641, 58, 1637] = [1641, 58, 1637]"
  "u_normalize [1633, 1634, 58, 1635, 1632] = [1633, 1634, 58, 1635, 1632]"
  by (simp_all add: u_normalize_def u_sub_separators_def u_sub_commas_def u_strip_def
      u_insert_colon_def arabic_not_space)

text \<open>
  Claim C4 as it is stated, that the parser succeeds exactly when the normalized string
  is an hour of one or two digits up to 23, a colon and a minute of one or two digits up
  to 59, fails above code point 255 whichever way ``digit'' is read. The string of the
  Arabic-Indic digit nine, a colon and the Arabic-Indic digit five (code points 1641, 58,
  1637) is parsed to 09:05 although it holds no ASCII digit; and the string of the
  Arabic-Indic digits one, two, a colon, three, zero is refused although it is an hour 12
  and a minute 30 in decimal digits, because the first of two hour digits must be an
  ASCII \<^verbatim>\<open>0\<close>, \<^verbatim>\<open>1\<close> or \<^verbatim>\<open>2\<close>.
\<close>

theorem parser_pattern_counterexample:
  "u_parse_time_input [1641, 58, 1637] = Some \<lparr>dt_day = 693596, dt_hour = 9, dt_minute = 5\<rparr>
   \<and> \<not> u_spec_hour_minute ascii_digit (u_normalize [1641, 58, 1637])
   \<and> u_parse_time_input [1633, 1634, 58, 1635, 1632] = None
   \<and> u_spec_hour_minute u_is_dec (u_normalize [1633, 1634, 58, 1635, 1632])"
proof -
  have a: "u_parse_time_input [1641, 58, 1637] = Some \<lparr>dt_day = 693596, dt_hour = 9, dt_minute = 5\<rparr>"
    by (simp add: u_parse_time_input_def u_normalize_arabic u_strptime_HM_def u_regex_match_HM_def
        u_hour_alternatives_def u_minute_alternatives_def arabic_digits u_int_of_digits_def)
  have b: "\<not> u_spec_hour_minute ascii_digit (u_normalize [1641, 58, 1637])"
    by (simp add: u_normalize_arabic u_spec_hour_minute_def u_spec_component_def ascii_digit_def)
  have c: "u_parse_time_input [1633, 1634, 58, 1635, 1632] = None"
    by (simp add: u_parse_time_input_def u_normalize_arabic u_strptime_HM_def u_regex_match_HM_def
        u_hour_alternatives_def u_minute_alternatives_def arabic_digits u_int_of_digits_def)
  have d: "u_spec_hour_minute u_is_dec (u_normalize [1633, 1634, 58, 1635, 1632])"
    by (simp add: u_normalize_arabic u_spec_hour_minute_def u_spec_component_def arabic_digits
        u_int_of_digits_def)
  from a b c d show ?thesis by (intro conjI)
qed

lemma code_points_split:
  assumes "code_points t = hs @ c # ms"
  shows "\<exists>hs' c' ms'. t = hs' @ c' # ms' \<and> hs = code_points hs' \<and> c = of_char c' \<and> ms = code_points ms'"
  using assms unfolding code_points_def
  by (auto simp: map_eq_append_conv map_eq_Cons_conv)

text \<open>
  Claim C4, amended. For every input whose characters are code points below 256, the
  parser returns a date-time exactly when the normalized string is an hour of one or two
  ASCII digits up to 23, a colon, and a minute of one or two ASCII digits up to 59;
  otherwise it returns \<open>None\<close>, and it raises nothing. \<^verbatim>\<open>8:5\<close> is parsed; \<^verbatim>\<open>2400\<close>,
  the empty string, and every such input whose hour is 24 or whose minute is 60 are
  refused.
\<close>

theorem parse_time_input_succeeds_iff_below_256:
  assumes "\<forall>c\<in>set s. c < 256"
  shows "(u_parse_time_input s \<noteq> None \<longleftrightarrow> u_spec_hour_minute ascii_digit (u_normalize s))
   \<and> u_parse_time_input (code_points ''8:5'') = Some \<lparr>dt_day = 693596, dt_hour = 8, dt_minute = 5\<rparr>
   \<and> u_parse_time_input (code_points ''2400'') = None
   \<and> u_parse_time_input (code_points '''') = None
   \<and> (list_all ascii_digit hs \<and> list_all ascii_digit ms \<and> u_normalize s = hs @ 58 # ms
        \<and> (u_int_of_digits hs = 24 \<or> u_int_of_digits ms = 60) \<longrightarrow> u_parse_time_input s = None)"
proof -
  define t where "t = map char_of s"
  have s: "s = code_points t"
    unfolding t_def using code_points_char_of[OF assms] by simp
  have 1: "u_parse_time_input s \<noteq> None \<longleftrightarrow> u_spec_hour_minute ascii_digit (u_normalize s)"
    unfolding s u_parse_time_input_code_points u_normalize_code_points u_spec_hour_minute_code_points
    by (rule parse_time_input_iff)
  have 5: "u_parse_time_input s = None"
    if h: "list_all ascii_digit hs" and m: "list_all ascii_digit ms"
      and n: "u_normalize s = hs @ 58 # ms"
      and v: "u_int_of_digits hs = 24 \<or> u_int_of_digits ms = 60"
  proof -
    from n have "code_points (normalize t) = hs @ 58 # ms"
      by (simp add: s u_normalize_code_points)
    from code_points_split[OF this] obtain hs' c' ms' where
      n': "normalize t = hs' @ c' # ms'" and hs: "hs = code_points hs'"
      and c: "58 = (of_char c' :: nat)" and ms: "ms = code_points ms'"
      by blast
    have c': "c' = CHR '':''" using c of_char_colon[of c'] by simp
    have dh: "list_all is_dec hs'" and dm: "list_all is_dec ms'"
      using h m unfolding hs ms
      by (simp_all add: code_points_def list.pred_map comp_def ascii_digit_of_char)
    have "int_of_digits hs' = 24 \<or> int_of_digits ms' = 60"
      using v unfolding hs ms
      by (simp add: u_int_of_digits_code_points[OF dh] u_int_of_digits_code_points[OF dm])
    from parse_time_input_out_of_range[OF dh dm n'[unfolded c'] this]
    show ?thesis by (simp add: s u_parse_time_input_code_points)
  qed
  show ?thesis
    using 1 5 parse_8_5 parse_2400 parse_empty
    by (simp add: u_parse_time_input_code_points)
qed

theorem parse_time_input_succeeds_iff_below_256_witness:
  "u_parse_time_input [50, 52, 58, 48, 48] = None
   \<and> u_parse_time_input [50, 51, 58, 53, 57] \<noteq> None"
proof -
  have sp: "\<not> in_ranges space_ranges 48" "\<not> in_ranges space_ranges 50" "\<not> in_ranges space_ranges 57"
    by (simp_all add: in_ranges_def space_ranges_def)
  have n1: "u_normalize [50, 52, 58, 48, 48] = [50, 52] @ 58 # [48, 48]"
    by (simp add: u_normalize_def u_sub_separators_def u_sub_commas_def u_strip_def
        u_insert_colon_def sp)
  have n2: "u_normalize [50, 51, 58, 53, 57] = [50, 51, 58, 53, 57]"
    by (simp add: u_normalize_def u_sub_separators_def u_sub_commas_def u_strip_def
        u_insert_colon_def sp)
  have v: "u_digit_val 48 = 0" "u_digit_val 49 = 1" "u_digit_val 50 = 2" "u_digit_val 51 = 3"
    "u_digit_val 52 = 4" "u_digit_val 53 = 5" "u_digit_val 57 = 9"
    by (simp_all add: u_digit_val_def decimal_ranges_def)
  have a: "list_all ascii_digit [50, 52] \<and> list_all ascii_digit [48, 48]
      \<and> (u_int_of_digits [50, 52] = 24 \<or> u_int_of_digits [48, 48] = 60)"
    by (simp add: ascii_digit_def u_int_of_digits_def v)
  have b: "u_spec_hour_minute ascii_digit (u_normalize [50, 51, 58, 53, 57])"
    by (simp add: n2 u_spec_hour_minute_def u_spec_component_def ascii_digit_def u_int_of_digits_def v)
  have r1: "\<forall>c\<in>set [50, 52, 58, 48, 48]. c < (256::nat)" by simp
  have r2: "\<forall>c\<in>set [50, 51, 58, 53, 57]. c < (256::nat)" by simp
  from parse_time_input_succeeds_iff_below_256[OF r1, of "[50, 52]" "[48, 48]"] n1 a
  have x: "u_parse_time_input [50, 52, 58, 48, 48] = None" by blast
  from parse_time_input_succeeds_iff_below_256[OF r2, of "[]" "[]"] b
  have y: "u_parse_time_input [50, 51, 58, 53, 57] \<noteq> None" by blast
  from x y show ?thesis by (intro conjI)
qed

subsection \<open>Removing sessions by number\<close>

lemma nths_cong_below:
  "(\<And>i. i < length xs \<Longrightarrow> i \<in> A \<longleftrightarrow> i \<in> B) \<Longrightarrow> nths xs A = nths xs B"
proof -
  assume a: "\<And>i. i < length xs \<Longrightarrow> i \<in> A \<longleftrightarrow> i \<in> B"
  have "filter (\<lambda>p. snd p \<in> A) (zip xs [0..<length xs]) = filter (\<lambda>p. snd p \<in> B) (zip xs [0..<length xs])"
    by (rule filter_cong[OF refl]) (auto simp: set_zip a)
  then show ?thesis by (simp add: nths_def)
qed

lemma nths_del_at:
  assumes n: "n < length xs" and above: "\<And>i. n \<le> i \<Longrightarrow> i \<in> A"
  shows "nths (del_at n xs) A = nths xs (A - {n})"
proof -
  have len: "length (take n xs) = n" using n by simp
  have l: "nths (del_at n xs) A = nths (take n xs) A @ drop (Suc n) xs"
    unfolding del_at_def nths_append len
    by (subst nths_all[of "drop (Suc n) xs"]) (auto intro: above)
  have xs: "xs = take n xs @ xs ! n # drop (Suc n) xs"
    using n by (simp add: id_take_nth_drop)
  have "nths xs (A - {n}) = nths (take n xs @ xs ! n # drop (Suc n) xs) (A - {n})"
    using xs by simp
  also have "\<dots> = nths (take n xs) (A - {n}) @ nths (drop (Suc n) xs) {j. Suc (j + n) \<in> A - {n}}"
    unfolding nths_append len by (simp add: nths_Cons)
  also have "nths (drop (Suc n) xs) {j. Suc (j + n) \<in> A - {n}} = drop (Suc n) xs"
    by (rule nths_all) (auto intro: above)
  also have "nths (take n xs) (A - {n}) = nths (take n xs) A"
    by (rule nths_cong_below) (auto simp: len)
  finally show ?thesis using l by simp
qed

lemma remove_loop_descending:
  assumes "sorted_wrt (\<lambda>a b. b < a) ds"
  shows "remove_loop ds xs = nths xs {i. int i \<notin> set ds}"
  using assms
proof (induction ds arbitrary: xs)
  case Nil
  show ?case by (simp add: nths_all)
next
  case (Cons j rest)
  then have below: "\<And>i. i \<in> set rest \<Longrightarrow> i < j" and srt: "sorted_wrt (\<lambda>a b. b < a) rest"
    by simp_all
  show ?case
  proof (cases "0 \<le> j \<and> j < int (length xs)")
    case True
    then have n: "nat j < length xs" by linarith
    have "remove_loop (j # rest) xs = nths (del_at (nat j) xs) {i. int i \<notin> set rest}"
      using True Cons.IH[OF srt] by simp
    also have "\<dots> = nths xs ({i. int i \<notin> set rest} - {nat j})"
    proof (rule nths_del_at[OF n])
      fix i assume "nat j \<le> i"
      then have "j \<le> int i" by simp
      then show "i \<in> {i. int i \<notin> set rest}" using below by force
    qed
    also have "{i. int i \<notin> set rest} - {nat j} = {i. int i \<notin> set (j # rest)}"
      using True by auto
    finally show ?thesis .
  next
    case False
    then have "remove_loop (j # rest) xs = remove_loop rest xs"
      by auto
    then have "remove_loop (j # rest) xs = nths xs {i. int i \<notin> set rest}"
      by (simp only: Cons.IH[OF srt])
    also have "\<dots> = nths xs {i. int i \<notin> set (j # rest)}"
      by (rule nths_cong_below) (use False in auto)
    finally show ?thesis .
  qed
qed

text \<open>
  When no number is entered twice, the records that stay are those whose number was not
  entered, in their order, whatever the order of the numbers.
\<close>

lemma remove_sessions_distinct:
  assumes "distinct numbers"
  shows "remove_sessions numbers sessions = nths sessions {i. int i + 1 \<notin> set numbers}"
proof -
  let ?t = "map (\<lambda>x. x - 1) numbers"
  have "distinct ?t" using assms by (simp add: distinct_map inj_on_def)
  then have "sorted_wrt (<) (sort ?t)" by (simp add: strict_sorted_iff)
  then have "sorted_wrt (\<lambda>a b. b < a) (rev (sort ?t))" by (simp add: sorted_wrt_rev)
  from remove_loop_descending[OF this]
  have "remove_sessions numbers sessions = nths sessions {i. int i \<notin> set ?t}"
    by (simp add: remove_sessions_def)
  also have "{i. int i \<notin> set ?t} = {i. int i + 1 \<notin> set numbers}"
    by force
  finally show ?thesis .
qed

lemma remove_3_1: "remove_sessions [3, 1] [r1, r2, r3] = [r2] \<and> remove_sessions [1, 3] [r1, r2, r3] = [r2]"
  by (simp add: remove_sessions_def del_at_def)


end
